theory Spec2Isabelle
  imports Main
begin

section \<open>Python string operations used by \<^verbatim>\<open>vmonkey.py\<close>\<close>

text \<open>
  The source is Python 2: a \<^verbatim>\<open>str\<close> is a byte string, modelled as \<^typ>\<open>string\<close>
  (a list of 8-bit characters).  The operations below are the \<^verbatim>\<open>str\<close> methods the
  normalizer calls, with Python's results written out.
\<close>

text \<open>Whitespace of \<^verbatim>\<open>str.strip()\<close> and of the regular expression class \<^verbatim>\<open>\s\<close>:
  space, tab, newline, carriage return, vertical tab, form feed.\<close>

definition is_space :: "char \<Rightarrow> bool" where
  "is_space c \<longleftrightarrow> c = CHR '' '' \<or> c = CHR 0x09 \<or> c = CHR 0x0A \<or> c = CHR 0x0D
     \<or> c = CHR 0x0B \<or> c = CHR 0x0C"

text \<open>The regular expression class \<^verbatim>\<open>\w\<close> on byte strings: letters, digits, underscore.\<close>

definition is_word :: "char \<Rightarrow> bool" where
  "is_word c \<longleftrightarrow> (let n = (of_char c :: nat) in
     (97 \<le> n \<and> n \<le> 122) \<or> (65 \<le> n \<and> n \<le> 90) \<or> (48 \<le> n \<and> n \<le> 57) \<or> n = 95)"

definition py_strip :: "string \<Rightarrow> string" where
  "py_strip s = rev (dropWhile is_space (rev (dropWhile is_space s)))"

definition to_lower :: "char \<Rightarrow> char" where
  "to_lower c = (let n = (of_char c :: nat) in
     if 65 \<le> n \<and> n \<le> 90 then char_of (n + 32) else c)"

definition py_lower :: "string \<Rightarrow> string" where
  "py_lower s = map to_lower s"

definition startswith :: "string \<Rightarrow> string \<Rightarrow> bool" where
  "startswith s p \<longleftrightarrow> take (length p) s = p"

definition endswith :: "string \<Rightarrow> string \<Rightarrow> bool" where
  "endswith s p \<longleftrightarrow> length p \<le> length s \<and> drop (length s - length p) s = p"

text \<open>\<^verbatim>\<open>sub in s\<close>: \<^verbatim>\<open>sub\<close> occurs in \<^verbatim>\<open>s\<close> as a substring.\<close>

fun py_in :: "string \<Rightarrow> string \<Rightarrow> bool" where
  "py_in sub [] = (sub = [])"
| "py_in sub (c # cs) = (startswith (c # cs) sub \<or> py_in sub cs)"

text \<open>\<^verbatim>\<open>s.split(c)\<close> for a one-character separator: never an empty list.\<close>

fun py_split :: "char \<Rightarrow> string \<Rightarrow> string list" where
  "py_split c [] = [[]]"
| "py_split c (x # xs) =
     (if x = c then [] # py_split c xs
      else (case py_split c xs of [] \<Rightarrow> [[x]] | l # ls \<Rightarrow> (x # l) # ls))"

text \<open>\<^verbatim>\<open>s.replace(old, new)\<close> for a non-empty \<^verbatim>\<open>old\<close>: the occurrences are
  replaced from the left, without overlap.\<close>

fun py_replace :: "string \<Rightarrow> string \<Rightarrow> string \<Rightarrow> string" where
  "py_replace old new [] = []"
| "py_replace old new (c # cs) =
     (if old \<noteq> [] \<and> startswith (c # cs) old
      then new @ py_replace old new (drop (length old) (c # cs))
      else c # py_replace old new cs)"

definition py_count :: "char \<Rightarrow> string \<Rightarrow> nat" where
  "py_count c s = length (filter (\<lambda>x. x = c) s)"

text \<open>\<^verbatim>\<open>s.index(c)\<close> and \<^verbatim>\<open>s.rindex(c)\<close> for a character that occurs in \<^verbatim>\<open>s\<close>
  (every call of the source is guarded by a test that it does).\<close>

definition py_index :: "char \<Rightarrow> string \<Rightarrow> nat" where
  "py_index c s = length (takeWhile (\<lambda>x. x \<noteq> c) s)"

definition py_rindex :: "char \<Rightarrow> string \<Rightarrow> nat" where
  "py_rindex c s = length s - 1 - length (takeWhile (\<lambda>x. x \<noteq> c) (rev s))"

text \<open>\<^verbatim>\<open>s.index(sub)\<close> for a substring that occurs in \<^verbatim>\<open>s\<close>: the first position.\<close>

fun py_index_str :: "string \<Rightarrow> string \<Rightarrow> nat" where
  "py_index_str sub [] = 0"
| "py_index_str sub (c # cs) =
     (if startswith (c # cs) sub then 0 else Suc (py_index_str sub cs))"

text \<open>The slice \<^verbatim>\<open>s[i:j]\<close> for non-negative indices (empty when \<^verbatim>\<open>j \<le> i\<close>).\<close>

definition py_slice :: "nat \<Rightarrow> nat \<Rightarrow> string \<Rightarrow> string" where
  "py_slice i j s = take (j - i) (drop i s)"

text \<open>The text built by \<^verbatim>\<open>r += line + "\n"\<close> for each line in turn.\<close>

definition py_unlines :: "string list \<Rightarrow> string" where
  "py_unlines ls = concat (map (\<lambda>l. l @ [CHR 0x0A]) ls)"

definition py_lines :: "string \<Rightarrow> string list" where
  "py_lines s = py_split (CHR 0x0A) s"


section \<open>The line predicates of the normalizer\<close>

text \<open>\<^verbatim>\<open>is_useless_dim(line)\<close>.\<close>

definition is_useless_dim :: "string \<Rightarrow> bool" where
  "is_useless_dim line0 = (let line = py_strip line0 in
     if \<not> startswith line ''Dim '' then False
     else (\<not> py_in ''Byte'' line \<and> \<not> py_in ''Long'' line \<and> \<not> py_in ''Integer'' line
           \<and> \<not> py_in '':'' line \<and> \<not> py_in ''='' line
           \<and> \<not> endswith (py_strip line) ''_''))"

text \<open>\<^verbatim>\<open>is_interesting_call(line, external_funcs)\<close>.\<close>

definition log_funcs :: "string list" where
  "log_funcs = [''CreateProcessA'', ''CreateProcessW'', ''.run'', ''CreateObject'',
     ''Open'', ''.Open'', ''GetObject'', ''Create'', ''.Create'', ''Environ'',
     ''CreateTextFile'', ''.CreateTextFile'', ''Eval'', ''.Eval'', ''Run'',
     ''SetExpandedStringValue'', ''WinExec'', ''URLDownloadToFile'', ''Print'']"

text \<open>The name the source cuts out of a declaration line: the text between the first
  \<^verbatim>\<open>Function\<close> and the first \<^verbatim>\<open>Lib\<close>, stripped.\<close>

definition ext_func_name :: "string \<Rightarrow> string" where
  "ext_func_name decl = (let start = py_index_str ''Function'' decl + length ''Function'';
       end = py_index_str ''Lib'' decl
     in py_strip (py_slice start end decl))"

definition is_interesting_call :: "string \<Rightarrow> string list \<Rightarrow> bool" where
  "is_interesting_call line external_funcs \<longleftrightarrow>
     list_ex (\<lambda>func. py_in func line) log_funcs
     \<or> list_ex (\<lambda>decl. py_in ''Function'' decl \<and> py_in ''Lib'' decl
                   \<and> py_in (ext_func_name decl) line) external_funcs"

text \<open>\<^verbatim>\<open>is_useless_call(line)\<close>.\<close>

definition useless_funcs :: "string list" where
  "useless_funcs = [''Cos'', ''Log'', ''Cos'', ''Exp'', ''Sin'', ''Tan'']"

definition is_useless_call :: "string \<Rightarrow> bool" where
  "is_useless_call line0 =
     (if py_in ''='' line0 then False
      else if \<not> py_in ''('' line0 then False
      else (let line = py_replace '' '' '''' line0;
                called_func = take (py_index (CHR ''('') line) line
            in called_func \<in> set useless_funcs))"


section \<open>\<^verbatim>\<open>collapse_macro_if_blocks\<close>\<close>

text \<open>
  The loop state is \<^verbatim>\<open>curr_blocks\<close> and \<^verbatim>\<open>curr_block\<close>, both \<^verbatim>\<open>None\<close> outside a
  block: \<open>None\<close> here, \<open>Some (curr_blocks, curr_block)\<close> inside one.  The function returns
  the lines appended to \<^verbatim>\<open>r\<close>, in order.
\<close>

text \<open>The scan for the biggest block: a later block replaces the choice only when it is
  strictly longer.\<close>

fun biggest_block :: "string list \<Rightarrow> string list list \<Rightarrow> string list" where
  "biggest_block best [] = best"
| "biggest_block best (block # blocks) =
     biggest_block (if length block > length best then block else best) blocks"

fun collapse_loop :: "(string list list \<times> string list) option \<Rightarrow> string list \<Rightarrow> string list" where
  "collapse_loop st [] = []"
| "collapse_loop None (line # rest) =
     (if startswith (py_strip line) ''#If'' then collapse_loop (Some ([], [])) rest
      else line # collapse_loop None rest)"
| "collapse_loop (Some (curr_blocks, curr_block)) (line # rest) =
     (let strip_line = py_strip line in
      if startswith strip_line ''#Else'' \<or> startswith strip_line ''Else''
      then collapse_loop (Some (curr_blocks @ [curr_block], [])) rest
      else if startswith strip_line ''#End''
      then biggest_block [] (curr_blocks @ [curr_block]) @ collapse_loop None rest
      else collapse_loop (Some (curr_blocks, curr_block @ [line])) rest)"

definition collapse_macro_if_blocks :: "string \<Rightarrow> string" where
  "collapse_macro_if_blocks vba_code = py_unlines (collapse_loop None (py_lines vba_code))"

section \<open>\<^verbatim>\<open>strip_useless_code\<close>\<close>

subsection \<open>The assignment pattern\<close>

text \<open>
  \<^verbatim>\<open>assign_re = re.compile("\s*(\w+(\.\w+)*)\s*=\s*")\<close>.  Every quantifier of the
  pattern is greedy and none can give a character back to what follows it (after \<^verbatim>\<open>\s*\<close>
  comes a word character, after \<^verbatim>\<open>\w+\<close> a dot, white space or \<^verbatim>\<open>=\<close>), so a match
  at a position is the longest run of each part.  \<open>dotted_part\<close> is the text matched
  by \<^verbatim>\<open>(\.\w+)*\<close>; \<open>match_assign_at\<close> gives group 1 and the length of the match.
\<close>

function dotted_part :: "string \<Rightarrow> string" where
  "dotted_part [] = []"
| "dotted_part (c # t) =
     (if c = CHR ''.'' \<and> takeWhile is_word t \<noteq> []
      then c # takeWhile is_word t @ dotted_part (dropWhile is_word t)
      else [])"
  by pat_completeness auto
termination
  by (relation "measure length") (auto simp: less_Suc_eq_le length_dropWhile_le)

definition match_assign_at :: "string \<Rightarrow> (string \<times> nat) option" where
  "match_assign_at s =
     (let s1 = dropWhile is_space s;
          w = takeWhile is_word s1;
          s2 = dropWhile is_word s1
      in if w = [] then None
         else (let d = dotted_part s2;
                   s3 = dropWhile is_space (drop (length d) s2)
               in case s3 of
                    [] \<Rightarrow> None
                  | c # s4 \<Rightarrow>
                      if c = CHR ''='' then Some (w @ d, length s - length (dropWhile is_space s4))
                      else None))"

text \<open>
  \<^verbatim>\<open>assign_re.findall(line)\<close>: the matches from left to right, the search resuming where
  the last match ended.  The first argument counts the characters of a match still to be
  skipped.  The source only reads group 1 of each match (\<^verbatim>\<open>var[0]\<close>).
\<close>

fun findall_from :: "nat \<Rightarrow> string \<Rightarrow> string list" where
  "findall_from k [] = []"
| "findall_from (Suc k) (c # cs) = findall_from k cs"
| "findall_from 0 (c # cs) =
     (case match_assign_at (c # cs) of
        Some (var, n) \<Rightarrow> var # findall_from (n - 1) cs
      | None \<Rightarrow> findall_from 0 cs)"

definition findall_assign :: "string \<Rightarrow> string list" where
  "findall_assign line = findall_from 0 line"

subsection \<open>First loop: the assigned variables\<close>

definition bool_statements :: "string list" where
  "bool_statements = [''If'', ''For'', ''Do'']"

text \<open>\<^verbatim>\<open>val = line[line.rindex("=") + 1:]\<close>.\<close>

definition assigned_val :: "string \<Rightarrow> string" where
  "assigned_val line = drop (py_rindex (CHR ''='') line + 1) line"

text \<open>
  The variables the first loop records for one line, given the external declarations
  seen so far: every \<^verbatim>\<open>continue\<close> of the loop body is a branch returning \<open>[]\<close>.
\<close>

definition assigned_vars :: "string \<Rightarrow> string list \<Rightarrow> string list" where
  "assigned_vars line external_funcs =
     (let match = findall_assign line; strip_line = py_strip line in
      if match = [] then []
      else if startswith (py_strip line) ''Function '' then []
      else if endswith (py_strip line) ''_'' then []
      else if py_in ''Sub '' line \<or> py_in ''Function '' line then []
      else if py_in ''GetObject'' line \<or> py_in ''Shell'' line then []
      else if is_interesting_call line external_funcs then []
      else if list_ex (\<lambda>b. startswith strip_line (b @ '' '')) bool_statements then []
      else if startswith strip_line ''.'' \<or> startswith (py_lower strip_line) ''let .'' then []
      else if py_in [CHR 0x22] line
              \<and> py_index (CHR 0x22) line < py_index (CHR ''='') line
              \<and> py_rindex (CHR 0x22) line > py_index (CHR ''='') line then []
      else filter (\<lambda>var. \<not> py_in ''.'' (assigned_val line)
                          \<and> \<not> py_in ''CreateObject'' (assigned_val line)) match)"

text \<open>The name cut out of a \<^verbatim>\<open>Sub NAME_Change()\<close> line.\<close>

definition callback_name :: "string \<Rightarrow> string" where
  "callback_name line =
     py_strip (py_replace ''_Change'' [] (py_replace ''()'' [] (py_replace '' '' []
       (py_replace ''Private '' [] (py_replace ''Sub '' [] line)))))"

text \<open>
  The state of the first loop.  \<open>assigns\<close> holds the pairs \<open>(var, n)\<close> with \<open>n\<close> in the
  source's \<^verbatim>\<open>assigns[var]\<close>; \<open>change_callbacks\<close> is a set in the source.
\<close>

record scan_state =
  external_funcs :: "string list"
  change_callbacks :: "string list"
  assigns :: "(string \<times> nat) list"
  line_num :: nat

definition scan_step :: "scan_state \<Rightarrow> string \<Rightarrow> scan_state" where
  "scan_step st line =
     (let ext = (if py_in ''Declare'' line \<and> py_in ''Lib'' line
                 then external_funcs st @ [py_strip line] else external_funcs st);
          cbs = (if py_in ''Sub '' line \<and> py_in ''_Change('' line
                 then change_callbacks st @ [callback_name line] else change_callbacks st);
          n = line_num st + 1
      in \<lparr> external_funcs = ext, change_callbacks = cbs,
           assigns = assigns st @ map (\<lambda>var. (var, n)) (assigned_vars line ext),
           line_num = n \<rparr>)"

definition scan_init :: scan_state where
  "scan_init = \<lparr> external_funcs = [], change_callbacks = [], assigns = [], line_num = 0 \<rparr>"

definition scan_lines :: "string list \<Rightarrow> scan_state" where
  "scan_lines ls = foldl scan_step scan_init ls"

subsection \<open>Second loop: the variables that may be referenced\<close>

definition assigns_of :: "(string \<times> nat) list \<Rightarrow> string \<Rightarrow> nat set" where
  "assigns_of asg var = set (map snd (filter (\<lambda>p. fst p = var) asg))"

text \<open>\<open>refs\<close> is the source's dictionary, as a list of pairs in the order of the keys.\<close>

definition refs_init :: "(string \<times> nat) list \<Rightarrow> (string \<times> bool) list" where
  "refs_init asg = map (\<lambda>var. (var, py_in ''.'' var)) (remdups (map fst asg))"

definition refs_mark_line ::
  "(string \<times> nat) list \<Rightarrow> (string \<times> bool) list \<Rightarrow> nat \<times> string \<Rightarrow> (string \<times> bool) list" where
  "refs_mark_line asg refs nl =
     map (\<lambda>(var, b). (var, if fst nl \<in> assigns_of asg var then b
                              else if py_in var (snd nl) then True else b)) refs"

definition refs_mark_callback :: "(string \<times> bool) list \<Rightarrow> string \<Rightarrow> (string \<times> bool) list" where
  "refs_mark_callback refs change_var =
     map (\<lambda>(var, b). (var, py_in change_var var \<or> py_in var change_var \<or> b)) refs"

definition numbered :: "string list \<Rightarrow> (nat \<times> string) list" where
  "numbered ls = zip [1 ..< Suc (length ls)] ls"

definition compute_refs :: "string list \<Rightarrow> scan_state \<Rightarrow> (string \<times> bool) list" where
  "compute_refs ls st =
     foldl refs_mark_callback
       (foldl (refs_mark_line (assigns st)) (refs_init (assigns st)) (numbered ls))
       (change_callbacks st)"

text \<open>The line numbers to strip: those of unreferenced variables, less those of
  referenced ones.\<close>

definition comment_lines_of :: "(string \<times> nat) list \<Rightarrow> (string \<times> bool) list \<Rightarrow> nat set" where
  "comment_lines_of asg refs =
     (let comment_lines = \<Union> (set (map (\<lambda>(var, b). if \<not> b then assigns_of asg var else {}) refs));
          keep_lines = \<Union> (set (map (\<lambda>(var, b). if b then assigns_of asg var else {}) refs))
      in {l \<in> comment_lines. l \<notin> keep_lines})"

definition comment_lines :: "string list \<Rightarrow> nat set" where
  "comment_lines ls = (let st = scan_lines ls in comment_lines_of (assigns st) (compute_refs ls st))"

subsection \<open>Third loop: rewriting the lines\<close>

text \<open>The \<^verbatim>\<open>Application.Run "foo, bar baz"\<close> repair.\<close>

definition fix_application_run :: "string \<Rightarrow> string" where
  "fix_application_run line0 =
     (if startswith (py_strip line0) ''Application.Run'' \<and> py_count (CHR 0x22) line0 = 2
         \<and> endswith (py_strip line0) [CHR 0x22]
      then (let line = py_replace ''Application.Run'' [] (py_replace [CHR 0x22] [] line0);
                fields = py_split (CHR '','') line
            in if length fields > 1 \<and> \<not> py_in '' '' (py_strip (hd fields))
               then ''WScript.Shell '' @ line else line)
      else line0)"

text \<open>
  The body of the third loop for the line numbered \<open>n\<close>, entered with \<open>if_count\<close>:
  the lines appended to \<^verbatim>\<open>r\<close> and the new \<open>if_count\<close>.
\<close>

definition rewrite_step :: "nat set \<Rightarrow> nat \<Rightarrow> int \<Rightarrow> string \<Rightarrow> string list \<times> int" where
  "rewrite_step cl n if_count0 line =
     (let if_count1 = (if startswith (py_strip line) ''If '' then if_count0 + 1 else if_count0);
          if_count2 = (if startswith (py_strip line) ''End If'' then if_count1 - 1 else if_count1)
      in if startswith (py_strip line) ''End If'' \<and> if_count2 < 0
         then ([''End Function''], 0)
         else if n \<in> cl
                 \<and> \<not> startswith (py_strip line) ''Function ''
                 \<and> \<not> startswith (py_strip line) ''Sub ''
                 \<and> \<not> startswith (py_strip line) ''End Sub''
                 \<and> \<not> startswith (py_strip line) ''End Function''
         then ([], if_count2)
         else if is_useless_call line then ([], if_count2)
         else if is_useless_dim line then ([], if_count2)
         else if endswith line ''End Function'' \<and> length line > length ''End Function''
         then ([py_replace ''End Function'' [] line, ''End Function''], if_count2)
         else ([fix_application_run line], if_count2))"

fun rewrite_loop :: "nat set \<Rightarrow> nat \<Rightarrow> int \<Rightarrow> string list \<Rightarrow> string list" where
  "rewrite_loop cl num if_count [] = []"
| "rewrite_loop cl num if_count (line # rest) =
     fst (rewrite_step cl (num + 1) if_count line)
     @ rewrite_loop cl (num + 1) (snd (rewrite_step cl (num + 1) if_count line)) rest"

definition strip_useless_code :: "string \<Rightarrow> string" where
  "strip_useless_code vba_code =
     (let ls = py_lines vba_code;
          r = py_unlines (rewrite_loop (comment_lines ls) 0 0 ls)
      in collapse_macro_if_blocks r)"

section \<open>Parsing the streams and processing a document\<close>

text \<open>
  An exception is a value.  The handlers of the source look at two things: whether the
  exception is an instance of \<^verbatim>\<open>Exception\<close> (the clause \<^verbatim>\<open>except Exception as e\<close> catches these
  only; \<^verbatim>\<open>KeyboardInterrupt\<close> and \<^verbatim>\<open>SystemExit\<close> are not) and the text \<^verbatim>\<open>str(e)\<close>.
\<close>

datatype exn = Exn (is_exception: bool) (exn_str: string)

text \<open>What a run writes: printed lines, logged errors and stack traces
  (\<^verbatim>\<open>traceback.print_exc()\<close>).\<close>

datatype out_item = Print string | LogError string | Traceback exn

text \<open>The outcome of \<^verbatim>\<open>module.parseString(vba_code + "\n", parseAll=True)\<close>: a module, a
  \<^verbatim>\<open>ParseException\<close> with its \<^verbatim>\<open>line\<close>, \<^verbatim>\<open>column\<close> and text, or another exception.\<close>

datatype 'm parse_outcome = Parsed 'm | ParseException string nat string | ParseRaises exn

text \<open>The value \<^verbatim>\<open>m\<close> that \<^verbatim>\<open>parse_stream\<close> returns when it does not return \<^verbatim>\<open>None\<close>: the
  string \<^verbatim>\<open>"empty"\<close> or a module.\<close>

datatype 'm parsed = Empty_macro | Module 'm

text \<open>
  A document and the code this file calls and does not define are a record.  \<open>container\<close>
  and \<open>filename\<close> are the arguments of \<^verbatim>\<open>process_file\<close> (\<^verbatim>\<open>entry_points\<close> is left at its
  default \<^verbatim>\<open>None\<close>).  The other fields are the outcomes of the calls on \<^verbatim>\<open>oletools\<close>,
  \<^verbatim>\<open>olefile\<close>, the grammar and the emulator of \<^verbatim>\<open>core\<close>: \<open>Inl e\<close> or \<open>Some e\<close> when the
  call raises \<open>e\<close>.  A stream is the tuple
  \<^verbatim>\<open>(subfilename, stream_path, vba_filename, vba_code)\<close>.

  \<^item> \<open>new_vm\<close>: \<^verbatim>\<open>ViperMonkey()\<close>; \<open>vba_parser\<close>: \<^verbatim>\<open>VBA_Parser(filename, data, relaxed=True)\<close>;
    \<open>get_metadata\<close>: the two \<^verbatim>\<open>olefile\<close> calls that read the metadata.
  \<^item> \<open>add_compiled_module\<close>: \<^verbatim>\<open>vm.add_compiled_module(m)\<close>.
  \<^item> \<open>ole_doc_vars\<close>, \<open>ole_custom_doc_props\<close>, \<open>open_doc_text\<close>: the statements inside the
    \<^verbatim>\<open>try\<close> of \<^verbatim>\<open>_read_doc_vars\<close>, \<^verbatim>\<open>_read_custom_doc_props\<close> and \<^verbatim>\<open>_read_doc_text\<close>.
    What they read only fills the emulator's variables and is not kept.
  \<^item> \<open>extract_form_strings\<close>: the loop over \<^verbatim>\<open>vba.extract_form_strings_extended()\<close>.
  \<^item> \<open>trace\<close>: \<^verbatim>\<open>vm.trace()\<close> on the modules added, with the value \<^verbatim>\<open>vm.actions\<close> has
    afterwards; \<open>dump_actions\<close>: the text of \<^verbatim>\<open>vm.dump_actions()\<close>.
\<close>

type_synonym stream = "string \<times> string \<times> string \<times> string"

record ('v, 'm, 'a) collaborators =
  container :: "string option"
  filename :: string
  new_vm :: "exn option"
  vba_parser :: "exn + 'v"
  detect_vba_macros :: "'v \<Rightarrow> exn + bool"
  get_metadata :: "exn option"
  extract_macros :: "'v \<Rightarrow> exn + stream list"
  vba_collapse_long_lines :: "string \<Rightarrow> string"
  filter_vba :: "string \<Rightarrow> string"
  py_repr :: "string \<Rightarrow> string"
  parse_module :: "string \<Rightarrow> 'm parse_outcome"
  add_compiled_module :: "'m \<Rightarrow> exn option"
  ole_doc_vars :: "exn option"
  ole_custom_doc_props :: "exn option"
  open_doc_text :: "exn option"
  extract_form_strings :: "exn option"
  trace :: "'m list \<Rightarrow> exn + 'a list"
  dump_actions :: "'a list \<Rightarrow> exn + string"

text \<open>The text \<^verbatim>\<open>parse_stream\<close> hands to the parser.\<close>

definition normalized_code :: "('v, 'm, 'a) collaborators \<Rightarrow> bool \<Rightarrow> string \<Rightarrow> string" where
  "normalized_code W strip_useless vba_code =
     (let c = filter_vba W (vba_collapse_long_lines W vba_code)
      in if strip_useless then strip_useless_code c else c)"

definition stream_banner :: "('v, 'm, 'a) collaborators \<Rightarrow> stream \<Rightarrow> out_item list" where
  "stream_banner W s = (case s of (subfilename, stream_path, vba_filename, vba_code) \<Rightarrow>
     [Print (replicate 79 (CHR ''-'')),
      Print (''VBA MACRO '' @ vba_filename @ '' ''),
      Print (''in file: '' @ subfilename @ '' - OLE stream: '' @ py_repr W stream_path),
      Print (concat (replicate 39 ''- ''))])"

text \<open>\<^verbatim>\<open>parse_stream\<close>: the output, and \<open>Inl e\<close> for an exception that leaves the function,
  \<open>Inr None\<close> for \<^verbatim>\<open>return None\<close>, \<open>Inr (Some m)\<close> for \<^verbatim>\<open>return m\<close>.\<close>

definition parse_stream ::
  "('v, 'm, 'a) collaborators \<Rightarrow> bool \<Rightarrow> stream \<Rightarrow> out_item list \<times> (exn + 'm parsed option)" where
  "parse_stream W strip_useless s =
     (let vba_code = normalized_code W strip_useless (snd (snd (snd s))) in
      if py_strip vba_code = []
      then (stream_banner W s @ [Print ''(empty macro)''], Inr (Some Empty_macro))
      else (let out = stream_banner W s @
                  [Print (replicate 79 (CHR ''-'')),
                   Print ''VBA CODE (with long lines collapsed):'',
                   Print vba_code,
                   Print (replicate 79 (CHR ''-'')),
                   Print ''PARSING VBA CODE:'']
            in case parse_module W (vba_code @ [CHR 0x0A]) of
                 Parsed m \<Rightarrow> (out, Inr (Some (Module m)))
               | ParseException err_line err_column err_str \<Rightarrow>
                   (out @ [Print err_line,
                           Print (replicate (err_column - 1) (CHR '' '') @ ''^''),
                           Print err_str,
                           Print ''Parse Error. Processing Aborted.''],
                    Inr None)
               | ParseRaises e \<Rightarrow> (out, Inl e)))"

text \<open>The loop of \<^verbatim>\<open>parse_streams_serial\<close> over the streams, \<open>r\<close> the modules so far.\<close>

fun serial_loop ::
  "('v, 'm, 'a) collaborators \<Rightarrow> bool \<Rightarrow> 'm parsed list \<Rightarrow> stream list
     \<Rightarrow> out_item list \<times> (exn + 'm parsed list option)" where
  "serial_loop W strip_useless r [] = ([], Inr (Some r))"
| "serial_loop W strip_useless r (s # rest) =
     (case parse_stream W strip_useless s of
        (out, Inl e) \<Rightarrow> (out, Inl e)
      | (out, Inr None) \<Rightarrow> (out, Inr None)
      | (out, Inr (Some m)) \<Rightarrow>
          (case serial_loop W strip_useless (r @ [m]) rest of
             (out', res) \<Rightarrow> (out @ out', res)))"

definition parse_streams_serial ::
  "('v, 'm, 'a) collaborators \<Rightarrow> bool \<Rightarrow> 'v
     \<Rightarrow> out_item list \<times> (exn + 'm parsed list option)" where
  "parse_streams_serial W strip_useless vba =
     (case extract_macros W vba of
        Inl e \<Rightarrow> ([], Inl e)
      | Inr streams \<Rightarrow> serial_loop W strip_useless [] streams)"

text \<open>\<^verbatim>\<open>parse_streams\<close>: the module-level flag \<^verbatim>\<open>parallel\<close> is \<^verbatim>\<open>False\<close> and nothing in the
  source sets it, so the serial version runs.\<close>

definition parse_streams ::
  "('v, 'm, 'a) collaborators \<Rightarrow> bool \<Rightarrow> 'v
     \<Rightarrow> out_item list \<times> (exn + 'm parsed list option)" where
  "parse_streams W strip_useless vba = parse_streams_serial W strip_useless vba"

text \<open>
  The loop \<^verbatim>\<open>for m in comp_modules: if (m != "empty"): vm.add_compiled_module(m)\<close>: the
  exception that ends it, if any; and the modules the emulator holds when the loop has
  run to its end.
\<close>

fun add_modules :: "('v, 'm, 'a) collaborators \<Rightarrow> 'm parsed list \<Rightarrow> exn option" where
  "add_modules W [] = None"
| "add_modules W (Empty_macro # ms) = add_modules W ms"
| "add_modules W (Module m # ms) =
     (case add_compiled_module W m of
        Some e \<Rightarrow> Some e
      | None \<Rightarrow> add_modules W ms)"

fun compiled_modules :: "'m parsed list \<Rightarrow> 'm list" where
  "compiled_modules [] = []"
| "compiled_modules (Empty_macro # ms) = compiled_modules ms"
| "compiled_modules (Module m # ms) = m # compiled_modules ms"

text \<open>
  \<^verbatim>\<open>_read_doc_vars\<close>, \<^verbatim>\<open>_read_custom_doc_props\<close> and \<^verbatim>\<open>_read_doc_text\<close>: each has its own
  handler \<^verbatim>\<open>except Exception as e\<close>, which logs and returns an empty value.  The result
  is what is written and the exception that leaves the function, if any.
\<close>

definition read_doc_vars :: "('v, 'm, 'a) collaborators \<Rightarrow> out_item list \<times> exn option" where
  "read_doc_vars W =
     (case ole_doc_vars W of
        None \<Rightarrow> ([], None)
      | Some e \<Rightarrow>
          if is_exception e
          then ([LogError (''Cannot read document variables. '' @ exn_str e)], None)
          else ([], Some e))"

definition read_custom_doc_props :: "('v, 'm, 'a) collaborators \<Rightarrow> out_item list \<times> exn option" where
  "read_custom_doc_props W =
     (case ole_custom_doc_props W of
        None \<Rightarrow> ([], None)
      | Some e \<Rightarrow>
          if is_exception e
          then ([LogError (''Cannot read custom doc properties. '' @ exn_str e)], None)
          else ([], Some e))"

definition read_doc_text :: "('v, 'm, 'a) collaborators \<Rightarrow> out_item list \<times> exn option" where
  "read_doc_text W =
     (case open_doc_text W of
        None \<Rightarrow> ([], None)
      | Some e \<Rightarrow>
          if is_exception e
          then ([LogError (''Cannot read document text from '' @ filename W @ ''. '' @ exn_str e)],
                None)
          else ([], Some e))"

text \<open>
  The statements of \<^verbatim>\<open>process_file\<close> inside its \<^verbatim>\<open>try\<close>, in the order of the source.  The
  metadata is read under a bare \<^verbatim>\<open>except:\<close>, which catches every exception.  The handler
  around the form strings logs, prints the stack trace and raises the exception again.
\<close>

definition process_file_body ::
  "('v, 'm, 'a) collaborators \<Rightarrow> bool \<Rightarrow> out_item list \<times> (exn + 'a list option)" where
  "process_file_body W strip_useless =
     (case vba_parser W of
        Inl e \<Rightarrow> ([], Inl e)
      | Inr vba \<Rightarrow>
     (case detect_vba_macros W vba of
        Inl e \<Rightarrow> ([], Inl e)
      | Inr False \<Rightarrow> ([Print ''No VBA macros found.'', Print ''''], Inr (Some []))
      | Inr True \<Rightarrow>
     (let out1 = (case get_metadata W of
                    Some e \<Rightarrow> [LogError ''Reading in metadata failed.'']
                  | None \<Rightarrow> [])
      in case parse_streams W strip_useless vba of
        (out2, Inl e) \<Rightarrow> (out1 @ out2, Inl e)
      | (out2, Inr None) \<Rightarrow> (out1 @ out2, Inr None)
      | (out2, Inr (Some comp_modules)) \<Rightarrow>
     (case add_modules W comp_modules of
        Some e \<Rightarrow> (out1 @ out2, Inl e)
      | None \<Rightarrow>
     (case read_doc_vars W of
        (out3, Some e) \<Rightarrow> (out1 @ out2 @ out3, Inl e)
      | (out3, None) \<Rightarrow>
     (case read_custom_doc_props W of
        (out4, Some e) \<Rightarrow> (out1 @ out2 @ out3 @ out4, Inl e)
      | (out4, None) \<Rightarrow>
     (case read_doc_text W of
        (out5, Some e) \<Rightarrow> (out1 @ out2 @ out3 @ out4 @ out5, Inl e)
      | (out5, None) \<Rightarrow>
     (let out = out1 @ out2 @ out3 @ out4 @ out5
      in case extract_form_strings W of
        Some e \<Rightarrow>
          (out @ (if is_exception e
                  then [LogError (''Cannot read form strings. '' @ exn_str e), Traceback e]
                  else []),
           Inl e)
      | None \<Rightarrow>
     (let out6 = [Print (replicate 79 (CHR ''-'')),
                  Print ''TRACING VBA CODE (entrypoint = Auto*):'']
      in case trace W (compiled_modules comp_modules) of
        Inl e \<Rightarrow> (out @ out6, Inl e)
      | Inr actions \<Rightarrow>
     (case dump_actions W actions of
        Inl e \<Rightarrow> (out @ out6 @ [Print ''Recorded Actions:''], Inl e)
      | Inr table \<Rightarrow>
          (out @ out6 @ [Print ''Recorded Actions:'', Print table, Print ''''],
           Inr (Some actions))))))))))))"

text \<open>
  \<^verbatim>\<open>process_file\<close>: the banner with the name of the file is printed and
  \<^verbatim>\<open>vm = ViperMonkey()\<close> runs before the \<^verbatim>\<open>try\<close>; the handler \<^verbatim>\<open>except Exception as e\<close> prints
  the stack trace unless \<^verbatim>\<open>"SystemExit"\<close> occurs in \<^verbatim>\<open>str(e)\<close>, and returns \<^verbatim>\<open>None\<close>.
\<close>

definition display_filename :: "('v, 'm, 'a) collaborators \<Rightarrow> string" where
  "display_filename W =
     (case container W of
        None \<Rightarrow> filename W
      | Some c \<Rightarrow> if c = [] then filename W else filename W @ '' in '' @ c)"

definition file_banner :: "('v, 'm, 'a) collaborators \<Rightarrow> out_item list" where
  "file_banner W = [Print (replicate 79 (CHR ''='')), Print (''FILE: '' @ display_filename W)]"

definition process_file ::
  "('v, 'm, 'a) collaborators \<Rightarrow> bool \<Rightarrow> out_item list \<times> (exn + 'a list option)" where
  "process_file W strip_useless =
     (case new_vm W of
        Some e \<Rightarrow> (file_banner W, Inl e)
      | None \<Rightarrow>
     (case process_file_body W strip_useless of
        (out, Inr res) \<Rightarrow> (file_banner W @ out, Inr res)
      | (out, Inl e) \<Rightarrow>
          if is_exception e
          then (file_banner W @ out
                  @ (if \<not> py_in ''SystemExit'' (exn_str e) then [Traceback e] else []),
                Inr None)
          else (file_banner W @ out, Inl e)))"


section \<open>Notions used in the statements\<close>

text \<open>The value of \<^verbatim>\<open>if_count\<close> after the third loop has run over the lines \<open>pre\<close>,
  entered with \<open>ic\<close>.\<close>

fun if_count_after :: "int \<Rightarrow> string list \<Rightarrow> int" where
  "if_count_after ic [] = ic"
| "if_count_after ic (line # rest) = if_count_after (snd (rewrite_step {} 0 ic line)) rest"

text \<open>The lines that open an \<^verbatim>\<open>If\<close> and those that close one, counted as the third loop
  tells them apart.\<close>

definition if_openings :: "string list \<Rightarrow> nat" where
  "if_openings ls = length (filter (\<lambda>l. startswith (py_strip l) ''If '') ls)"

definition end_if_closings :: "string list \<Rightarrow> nat" where
  "end_if_closings ls = length (filter (\<lambda>l. startswith (py_strip l) ''End If'') ls)"

text \<open>
  The number of \<^verbatim>\<open>If\<close> statements that are open after the lines \<open>ls\<close>, when \<open>k\<close> were open
  before them: a line starting with \<^verbatim>\<open>If\<close> opens one, a line starting with \<^verbatim>\<open>End If\<close>
  closes one when one is open.
\<close>

fun open_ifs :: "nat \<Rightarrow> string list \<Rightarrow> nat" where
  "open_ifs k [] = k"
| "open_ifs k (l # ls) =
     (if startswith (py_strip l) ''If'' then open_ifs (k + 1) ls
      else if startswith (py_strip l) ''End If'' then open_ifs (k - 1) ls
      else open_ifs k ls)"

text \<open>The lines in which every \<^verbatim>\<open>If\<close> at the start is followed by a space.\<close>

definition if_then_space :: "string list \<Rightarrow> bool" where
  "if_then_space ls \<longleftrightarrow>
     list_all (\<lambda>l. \<not> startswith (py_strip l) ''If'' \<or> startswith (py_strip l) ''If '') ls"

text \<open>The result of \<open>serial_loop\<close> and of \<open>parse_streams\<close>, with the modules that
  \<open>process_file\<close> hands to the emulator in place of the list.\<close>

fun compiled_result :: "exn + 'm parsed list option \<Rightarrow> exn + 'm list option" where
  "compiled_result (Inl e) = Inl e"
| "compiled_result (Inr None) = Inr None"
| "compiled_result (Inr (Some ms)) = Inr (Some (compiled_modules ms))"

text \<open>A stream whose code is empty or white space once normalized, and a stream that the
  grammar accepts.\<close>

definition blank_stream :: "('v, 'm, 'a) collaborators \<Rightarrow> bool \<Rightarrow> stream \<Rightarrow> bool" where
  "blank_stream W su s \<longleftrightarrow> py_strip (normalized_code W su (snd (snd (snd s)))) = []"

definition stream_parses :: "('v, 'm, 'a) collaborators \<Rightarrow> bool \<Rightarrow> stream \<Rightarrow> bool" where
  "stream_parses W su s \<longleftrightarrow>
     (case parse_module W (normalized_code W su (snd (snd (snd s))) @ [CHR 0x0A]) of
        Parsed m \<Rightarrow> True
      | ParseException err_line err_column err_str \<Rightarrow> False
      | ParseRaises e \<Rightarrow> False)"

text \<open>The modules of the streams that are not blank, in the order of the streams.\<close>

fun stream_modules :: "('v, 'm, 'a) collaborators \<Rightarrow> bool \<Rightarrow> stream list \<Rightarrow> 'm list" where
  "stream_modules W su [] = []"
| "stream_modules W su (s # ss) =
     (if blank_stream W su s then stream_modules W su ss
      else (case parse_module W (normalized_code W su (snd (snd (snd s))) @ [CHR 0x0A]) of
              Parsed m \<Rightarrow> m # stream_modules W su ss
            | ParseException err_line err_column err_str \<Rightarrow> stream_modules W su ss
            | ParseRaises e \<Rightarrow> stream_modules W su ss))"

text \<open>What \<^verbatim>\<open>parse_stream\<close> returns for each of the streams, when none fails.\<close>

fun stream_results :: "('v, 'm, 'a) collaborators \<Rightarrow> bool \<Rightarrow> stream list \<Rightarrow> 'm parsed list" where
  "stream_results W su [] = []"
| "stream_results W su (s # ss) =
     (if blank_stream W su s then Empty_macro # stream_results W su ss
      else (case parse_module W (normalized_code W su (snd (snd (snd s))) @ [CHR 0x0A]) of
              Parsed m \<Rightarrow> Module m # stream_results W su ss
            | ParseException err_line err_column err_str \<Rightarrow> stream_results W su ss
            | ParseRaises e \<Rightarrow> stream_results W su ss))"

text \<open>What is logged when the metadata is read.\<close>

definition metadata_log :: "('v, 'm, 'a) collaborators \<Rightarrow> out_item list" where
  "metadata_log W =
     (case get_metadata W of
        Some e \<Rightarrow> [LogError ''Reading in metadata failed.'']
      | None \<Rightarrow> [])"

text \<open>
  How far \<^verbatim>\<open>process_file\<close> has come: the file is opened, holds macros and its streams are
  parsed into \<open>ms\<close>; then the modules are added to the emulator; then no exception has
  left the three readers of the document.
\<close>

definition streams_parsed ::
  "('v, 'm, 'a) collaborators \<Rightarrow> bool \<Rightarrow> 'v \<Rightarrow> 'm parsed list \<Rightarrow> bool" where
  "streams_parsed W su vba ms \<longleftrightarrow>
     vba_parser W = Inr vba \<and> detect_vba_macros W vba = Inr True
     \<and> snd (parse_streams W su vba) = Inr (Some ms)"

definition modules_added ::
  "('v, 'm, 'a) collaborators \<Rightarrow> bool \<Rightarrow> 'v \<Rightarrow> 'm parsed list \<Rightarrow> bool" where
  "modules_added W su vba ms \<longleftrightarrow> streams_parsed W su vba ms \<and> add_modules W ms = None"

definition document_read ::
  "('v, 'm, 'a) collaborators \<Rightarrow> bool \<Rightarrow> 'v \<Rightarrow> 'm parsed list \<Rightarrow> bool" where
  "document_read W su vba ms \<longleftrightarrow>
     modules_added W su vba ms
     \<and> snd (read_doc_vars W) = None \<and> snd (read_custom_doc_props W) = None
     \<and> snd (read_doc_text W) = None"

text \<open>What these steps have written when all have gone through.\<close>

definition read_output ::
  "('v, 'm, 'a) collaborators \<Rightarrow> bool \<Rightarrow> 'v \<Rightarrow> out_item list" where
  "read_output W su vba =
     metadata_log W @ fst (parse_streams W su vba)
     @ fst (read_doc_vars W) @ fst (read_custom_doc_props W) @ fst (read_doc_text W)"

text \<open>
  An example document for the closed statements below: four streams, of which the second
  does not parse and the fourth is blank; the collapse of long lines and the attribute
  filter leave these texts as they are, a module is represented by its text, and the
  emulator records the modules it is given.
\<close>

definition example_doc :: "(unit, string, string) collaborators" where
  "example_doc =
     \<lparr> container = None,
       filename = ''doc'',
       new_vm = None,
       vba_parser = Inr (),
       detect_vba_macros = (\<lambda>v. Inr True),
       get_metadata = None,
       extract_macros = (\<lambda>v. Inr [(''doc'', ''Macros/A'', ''A.bas'', ''good''),
                                 (''doc'', ''Macros/B'', ''B.bas'', ''bad''),
                                 (''doc'', ''Macros/C'', ''C.bas'', ''fine''),
                                 (''doc'', ''Macros/D'', ''D.bas'', '' '')]),
       vba_collapse_long_lines = (\<lambda>c. c),
       filter_vba = (\<lambda>c. c),
       py_repr = (\<lambda>p. p),
       parse_module = (\<lambda>c. if c = ''bad'' @ [CHR 0x0A]
                            then ParseException ''bad'' 1 ''Expected statement''
                            else Parsed c),
       add_compiled_module = (\<lambda>m. None),
       ole_doc_vars = None,
       ole_custom_doc_props = None,
       open_doc_text = None,
       extract_form_strings = None,
       trace = (\<lambda>ms. Inr ms),
       dump_actions = (\<lambda>actions. Inr ''(table)'') \<rparr>"

text \<open>The same document with three streams, all of which parse or are blank: the blank
  one stands between the two others.\<close>

definition blank_stream_doc :: "(unit, string, string) collaborators" where
  "blank_stream_doc =
     example_doc \<lparr> extract_macros := (\<lambda>v. Inr [(''doc'', ''Macros/A'', ''A.bas'', ''good''),
                                               (''doc'', ''Macros/D'', ''D.bas'', '' ''),
                                               (''doc'', ''Macros/C'', ''C.bas'', ''fine'')]) \<rparr>"

text \<open>A line that no rule of the third loop touches.\<close>

definition plain_line :: "string \<Rightarrow> bool" where
  "plain_line l \<longleftrightarrow>
     \<not> py_in ''='' l \<and> \<not> startswith (py_strip l) ''End If''
     \<and> \<not> is_useless_call l \<and> \<not> is_useless_dim l
     \<and> \<not> endswith l ''End Function''
     \<and> \<not> startswith (py_strip l) ''Application.Run''
     \<and> \<not> startswith (py_strip l) ''#If''"

text \<open>What the third loop can emit for the lines \<open>ls\<close>.\<close>

definition emitted_lines :: "string list \<Rightarrow> string set" where
  "emitted_lines ls =
     {''End Function''} \<union> fix_application_run ` set ls
     \<union> py_replace ''End Function'' [] ` {l \<in> set ls. endswith l ''End Function''}"

text \<open>
  The lines of a block between its \<^verbatim>\<open>#If\<close> line and its \<^verbatim>\<open>#End\<close> line: the first arm,
  then for every further arm its marker line and its lines.
\<close>

fun block_lines :: "string list \<Rightarrow> (string \<times> string list) list \<Rightarrow> string list" where
  "block_lines arm [] = arm"
| "block_lines arm ((marker, arm') # others) = arm @ marker # block_lines arm' others"

text \<open>The lines the loop reads as the start of another arm, and as the end of the block.\<close>

definition else_marker :: "string \<Rightarrow> bool" where
  "else_marker line \<longleftrightarrow>
     startswith (py_strip line) ''#Else'' \<or> startswith (py_strip line) ''Else''"

definition end_marker :: "string \<Rightarrow> bool" where
  "end_marker line \<longleftrightarrow> startswith (py_strip line) ''#End''"


section \<open>Facts about the string operations\<close>

lemma startswith_hd: "startswith s (c # p) \<Longrightarrow> s \<noteq> [] \<and> hd s = c"
  by (cases s) (auto simp: startswith_def)

lemma startswith_append: "startswith s p \<Longrightarrow> \<exists>t. s = p @ t"
  by (metis append_take_drop_id startswith_def)

lemma py_in_char: "py_in [c] s \<longleftrightarrow> c \<in> set s"
  by (induction s) (auto simp: startswith_def)

lemma py_replace_space: "py_replace '' '' [] s = filter (\<lambda>c. c \<noteq> CHR '' '') s"
proof (induction s)
  case Nil
  show ?case by simp
next
  case (Cons c s)
  show ?case
  proof (cases "c = CHR '' ''")
    case True
    then show ?thesis using Cons by (simp add: startswith_def)
  next
    case False
    then show ?thesis using Cons by (simp add: startswith_def)
  qed
qed

text \<open>A stripped string sits inside the string, after white space only.\<close>

lemma py_strip_decomp:
  "\<exists>ws t. s = ws @ py_strip s @ t \<and> (\<forall>c \<in> set ws. is_space c)"
proof -
  let ?d = "dropWhile is_space s"
  have 1: "s = takeWhile is_space s @ ?d" by simp
  have "rev ?d = takeWhile is_space (rev ?d) @ dropWhile is_space (rev ?d)" by simp
  then have "rev (rev ?d) = rev (takeWhile is_space (rev ?d) @ dropWhile is_space (rev ?d))"
    by (rule arg_cong)
  then have 2: "?d = rev (dropWhile is_space (rev ?d)) @ rev (takeWhile is_space (rev ?d))"
    by (simp only: rev_rev_ident rev_append)
  have 3: "\<forall>c \<in> set (takeWhile is_space s). is_space c"
    by (auto dest: set_takeWhileD)
  have "s = takeWhile is_space s @ py_strip s @ rev (takeWhile is_space (rev ?d))"
    unfolding py_strip_def using 1 2 by metis
  then show ?thesis using 3 by blast
qed

lemma strip_prefix_decomp:
  assumes "startswith (py_strip s) p"
  shows "\<exists>ws t. s = ws @ p @ t \<and> (\<forall>c \<in> set ws. is_space c)"
proof -
  obtain ws t where a: "s = ws @ py_strip s @ t" "\<forall>c \<in> set ws. is_space c"
    using py_strip_decomp by blast
  obtain u where b: "py_strip s = p @ u" using startswith_append [OF assms] by blast
  have "s = ws @ p @ (u @ t)" using a(1) b by simp
  then show ?thesis using a(2) by blast
qed


section \<open>Facts about the assignment pattern\<close>

lemma case_eq_head:
  "(case xs of [] \<Rightarrow> None | c # r \<Rightarrow> if c = k then Some (f r) else None) = Some v
     \<Longrightarrow> \<exists>r. xs = k # r"
  by (cases xs) (auto split: if_splits)

text \<open>The pattern only matches where an equals sign follows.\<close>

lemma match_assign_at_eq:
  assumes "match_assign_at s = Some r"
  shows "CHR ''='' \<in> set s"
proof -
  let ?s2 = "dropWhile is_word (dropWhile is_space s)"
  let ?s3 = "dropWhile is_space (drop (length (dotted_part ?s2)) ?s2)"
  let ?w = "takeWhile is_word (dropWhile is_space s)"
  have a: "(if ?w = [] then None
            else (case ?s3 of [] \<Rightarrow> None
                  | c # s4 \<Rightarrow> if c = CHR ''=''
                       then Some (?w @ dotted_part ?s2, length s - length (dropWhile is_space s4))
                       else None)) = Some r"
    using assms unfolding match_assign_at_def Let_def .
  have "?w \<noteq> []" using a by (metis option.distinct(1))
  then have "(case ?s3 of [] \<Rightarrow> None
                  | c # s4 \<Rightarrow> if c = CHR ''=''
                       then Some (?w @ dotted_part ?s2, length s - length (dropWhile is_space s4))
                       else None) = Some r"
    using a by (simp only: if_False)
  then have "\<exists>s4. ?s3 = CHR ''='' # s4" by (rule case_eq_head)
  then have "CHR ''='' \<in> set ?s3" by (metis list.set_intros(1))
  then have "CHR ''='' \<in> set (drop (length (dotted_part ?s2)) ?s2)"
    by (rule set_dropWhileD)
  then have "CHR ''='' \<in> set ?s2" by (rule in_set_dropD)
  then have "CHR ''='' \<in> set (dropWhile is_space s)"
    by (rule set_dropWhileD)
  then show ?thesis by (rule set_dropWhileD)
qed

lemma findall_from_no_eq: "CHR ''='' \<notin> set s \<Longrightarrow> findall_from k s = []"
proof (induction k s rule: findall_from.induct)
  case (1 k)
  show ?case by simp
next
  case (2 k c cs)
  then show ?case by simp
next
  case (3 c cs)
  have n: "match_assign_at (c # cs) = None"
  proof (cases "match_assign_at (c # cs)")
    case None
    then show ?thesis .
  next
    case (Some r)
    then show ?thesis using match_assign_at_eq [OF Some] "3.prems" by simp
  qed
  have "CHR ''='' \<notin> set cs" using "3.prems" by simp
  then have "findall_from 0 cs = []" using "3.IH"(1) n by simp
  then show ?case using n by simp
qed

lemma no_eq_no_assign: "\<not> py_in ''='' line \<Longrightarrow> assigned_vars line ext = []"
  by (simp add: assigned_vars_def findall_assign_def findall_from_no_eq py_in_char)


section \<open>Facts about the third loop\<close>

lemma rewrite_step_snd_indep:
  "snd (rewrite_step cl n ic line) = snd (rewrite_step {} 0 ic line)"
  by (simp add: rewrite_step_def Let_def)

lemma rewrite_loop_append:
  "rewrite_loop cl n ic (pre @ post) =
     rewrite_loop cl n ic pre @ rewrite_loop cl (n + length pre) (if_count_after ic pre) post"
proof (induction pre arbitrary: n ic)
  case Nil
  show ?case by simp
next
  case (Cons l pre)
  have "snd (rewrite_step cl (n + 1) ic l) = snd (rewrite_step {} 0 ic l)"
    by (rule rewrite_step_snd_indep)
  then show ?case using Cons.IH [of "n + 1" "snd (rewrite_step {} 0 ic l)"] by simp
qed

lemma if_count_after_append:
  "if_count_after ic (pre @ post) = if_count_after (if_count_after ic pre) post"
  by (induction pre arbitrary: ic) simp_all

lemma end_if_not_if: "startswith s ''End If'' \<Longrightarrow> \<not> startswith s ''If ''"
proof
  assume a: "startswith s ''End If''" and b: "startswith s ''If ''"
  have "hd s = CHR ''E''" using startswith_hd [OF a] by simp
  moreover have "hd s = CHR ''I''" using startswith_hd [OF b] by simp
  ultimately show False by simp
qed


text \<open>While no \<^verbatim>\<open>End If\<close> has been unmatched, the count is the openings less the
  closings.\<close>

lemma if_count_balanced:
  "\<forall>k \<le> length pre. end_if_closings (take k pre) \<le> if_openings (take k pre) \<Longrightarrow>
     if_count_after 0 pre = int (if_openings pre) - int (end_if_closings pre)"
proof (induction pre rule: rev_induct)
  case Nil
  show ?case by (simp add: if_openings_def end_if_closings_def)
next
  case (snoc x xs)
  have "\<forall>k \<le> length xs. end_if_closings (take k xs) \<le> if_openings (take k xs)"
  proof (intro allI impI)
    fix k assume k: "k \<le> length xs"
    then have "take k (xs @ [x]) = take k xs" by simp
    moreover have "k \<le> length (xs @ [x])" using k by simp
    ultimately show "end_if_closings (take k xs) \<le> if_openings (take k xs)"
      using snoc.prems by metis
  qed
  then have ih: "if_count_after 0 xs = int (if_openings xs) - int (end_if_closings xs)"
    by (rule snoc.IH)
  have b: "end_if_closings (xs @ [x]) \<le> if_openings (xs @ [x])"
    using snoc.prems [rule_format, of "length (xs @ [x])"] by simp
  show ?case
  proof (cases "startswith (py_strip x) ''End If''")
    case True
    then have ni: "\<not> startswith (py_strip x) ''If ''" by (rule end_if_not_if)
    have "end_if_closings xs + 1 \<le> if_openings xs"
      using b True ni by (simp add: if_openings_def end_if_closings_def)
    then show ?thesis using True ni ih
      by (simp add: if_count_after_append rewrite_step_def Let_def
          if_openings_def end_if_closings_def)
  next
    case False
    then show ?thesis using ih
      by (simp add: if_count_after_append rewrite_step_def Let_def
          if_openings_def end_if_closings_def)
  qed
qed

section \<open>Facts about the first loop\<close>

lemma scan_lines_snoc: "scan_lines (xs @ [x]) = scan_step (scan_lines xs) x"
  by (simp add: scan_lines_def)

lemma line_num_scan: "line_num (scan_lines ls) = length ls"
proof (induction ls rule: rev_induct)
  case Nil
  show ?case by (simp add: scan_lines_def scan_init_def)
next
  case (snoc x xs)
  then show ?case by (simp add: scan_lines_snoc scan_step_def Let_def)
qed

lemma assigns_scan_snoc:
  "assigns (scan_lines (xs @ [x])) =
     assigns (scan_lines xs)
     @ map (\<lambda>var. (var, length xs + 1))
         (assigned_vars x (external_funcs (scan_lines (xs @ [x]))))"
  by (simp add: scan_lines_snoc scan_step_def Let_def line_num_scan)

lemma assigns_scan:
  "(v, n) \<in> set (assigns (scan_lines ls)) \<Longrightarrow>
     1 \<le> n \<and> n \<le> length ls
     \<and> v \<in> set (assigned_vars (ls ! (n - 1)) (external_funcs (scan_lines (take n ls))))"
proof (induction ls rule: rev_induct)
  case Nil
  then show ?case by (simp add: scan_lines_def scan_init_def)
next
  case (snoc x xs)
  from snoc.prems have
    "(v, n) \<in> set (assigns (scan_lines xs))
     \<or> (n = length xs + 1
         \<and> v \<in> set (assigned_vars x (external_funcs (scan_lines (xs @ [x])))))"
    by (auto simp: assigns_scan_snoc)
  then show ?case
  proof
    assume "(v, n) \<in> set (assigns (scan_lines xs))"
    then have ih: "1 \<le> n \<and> n \<le> length xs
       \<and> v \<in> set (assigned_vars (xs ! (n - 1)) (external_funcs (scan_lines (take n xs))))"
      by (rule snoc.IH)
    then have "n - 1 < length xs" by arith
    then have "(xs @ [x]) ! (n - 1) = xs ! (n - 1)" by (simp add: nth_append)
    moreover have "take n (xs @ [x]) = take n xs" using ih by simp
    ultimately show ?thesis using ih by simp
  next
    assume a: "n = length xs + 1
         \<and> v \<in> set (assigned_vars x (external_funcs (scan_lines (xs @ [x]))))"
    then show ?thesis by simp
  qed
qed

lemma assigns_of_mem: "n \<in> assigns_of asg var \<Longrightarrow> (var, n) \<in> set asg"
  by (auto simp: assigns_of_def)

lemma comment_lines_of_mem: "n \<in> comment_lines_of asg refs \<Longrightarrow> \<exists>var. (var, n) \<in> set asg"
proof -
  assume "n \<in> comment_lines_of asg refs"
  then obtain var where "n \<in> assigns_of asg var"
    by (auto simp: comment_lines_of_def Let_def split: if_splits)
  then show ?thesis using assigns_of_mem by blast
qed

lemma comment_lines_assigned:
  assumes "n \<in> comment_lines ls"
  shows "1 \<le> n \<and> n \<le> length ls
     \<and> assigned_vars (ls ! (n - 1)) (external_funcs (scan_lines (take n ls))) \<noteq> []"
proof -
  obtain v where "(v, n) \<in> set (assigns (scan_lines ls))"
    using assms comment_lines_of_mem by (fastforce simp: comment_lines_def Let_def)
  then have "1 \<le> n \<and> n \<le> length ls
     \<and> v \<in> set (assigned_vars (ls ! (n - 1)) (external_funcs (scan_lines (take n ls))))"
    by (rule assigns_scan)
  then show ?thesis by auto
qed


section \<open>Lines that are no useless call\<close>

lemma useless_funcs_shape:
  "f \<in> set useless_funcs \<Longrightarrow> length f = 3 \<and> \<not> is_space (hd f)"
  by (auto simp: useless_funcs_def is_space_def)

lemma take_take_len: "length (take k xs) = 3 \<Longrightarrow> take 3 xs = take k xs"
  by (metis length_take min.cobounded1 take_all take_take)

text \<open>A line whose stripped text starts with \<open>p\<close> is no useless call, when the first
  three characters of \<open>p\<close> other than spaces are not one of the five names.\<close>

lemma strip_prefix_not_useless_call:
  assumes p: "startswith (py_strip s) p"
      and l: "3 \<le> length (filter (\<lambda>c. c \<noteq> CHR '' '') p)"
      and n: "take 3 (filter (\<lambda>c. c \<noteq> CHR '' '') p) \<notin> set useless_funcs"
  shows "\<not> is_useless_call s"
proof
  assume u: "is_useless_call s"
  let ?F = "filter (\<lambda>c. c \<noteq> CHR '' '') s"
  let ?k = "py_index (CHR ''('') ?F"
  have "take ?k ?F \<in> set useless_funcs"
    using u by (simp add: is_useless_call_def Let_def py_replace_space split: if_splits)
  then have sh: "length (take ?k ?F) = 3 \<and> \<not> is_space (hd (take ?k ?F))"
    and mem: "take ?k ?F \<in> set useless_funcs"
    using useless_funcs_shape by blast+
  then have t3: "take 3 ?F = take ?k ?F" using take_take_len by blast
  obtain ws t where d: "s = ws @ p @ t" "\<forall>c \<in> set ws. is_space c"
    using strip_prefix_decomp [OF p] by blast
  let ?fw = "filter (\<lambda>c. c \<noteq> CHR '' '') ws"
  let ?fp = "filter (\<lambda>c. c \<noteq> CHR '' '') p"
  let ?ft = "filter (\<lambda>c. c \<noteq> CHR '' '') t"
  have F: "?F = ?fw @ ?fp @ ?ft" using d(1) by simp
  show False
  proof (cases "?fw = []")
    case True
    then have "take 3 ?F = take 3 ?fp" using F l by simp
    then show False using n t3 mem by simp
  next
    case False
    then have "hd ?F = hd ?fw" using F by simp
    moreover have "hd ?fw \<in> set ?fw" using False by (rule hd_in_set)
    ultimately have "is_space (hd ?F)" using d(2) by simp
    moreover have "hd (take 3 ?F) = hd ?F" by (cases ?F) simp_all
    ultimately show False using sh t3 by simp
  qed
qed

lemma end_if_not_useless_call:
  "startswith (py_strip s) ''End If'' \<Longrightarrow> \<not> is_useless_call s"
  using strip_prefix_not_useless_call [of s "''End If''"] by (simp add: useless_funcs_def)

lemma dim_not_useless_call:
  "startswith (py_strip s) ''Dim '' \<Longrightarrow> \<not> is_useless_call s"
  using strip_prefix_not_useless_call [of s "''Dim ''"] by (simp add: useless_funcs_def)

lemma app_run_not_useless_call:
  "startswith (py_strip s) ''Application.Run'' \<Longrightarrow> \<not> is_useless_call s"
  using strip_prefix_not_useless_call [of s "''Application.Run''"] by (simp add: useless_funcs_def)


section \<open>Useless calls and \<^verbatim>\<open>Dim\<close> statements\<close>

lemma dropWhile_snoc_keep: "\<not> P x \<Longrightarrow> \<exists>ys. dropWhile P (zs @ [x]) = ys @ [x]"
  by (induction zs) auto

lemma py_strip_idem: "py_strip (py_strip s) = py_strip s"
proof (cases "dropWhile is_space s")
  case Nil
  then have "py_strip s = []" unfolding py_strip_def by (simp only: rev.simps dropWhile.simps)
  moreover have "py_strip [] = []" by (simp add: py_strip_def)
  ultimately show ?thesis by simp
next
  case (Cons x d)
  then have nx: "\<not> is_space x" by (metis hd_dropWhile list.sel(1) list.distinct(1))
  obtain ys where ys: "dropWhile is_space (rev d @ [x]) = ys @ [x]"
    using dropWhile_snoc_keep [of is_space x "rev d"] nx by blast
  have 1: "py_strip s = x # rev ys" using Cons ys by (simp add: py_strip_def)
  have "py_strip (x # rev ys) = x # rev ys" using nx ys
    by (simp add: py_strip_def) (metis dropWhile_idem ys)
  then show ?thesis using 1 by simp
qed

lemma is_useless_dim_iff:
  "is_useless_dim line \<longleftrightarrow>
     startswith (py_strip line) ''Dim ''
     \<and> \<not> py_in ''Byte'' (py_strip line) \<and> \<not> py_in ''Long'' (py_strip line)
     \<and> \<not> py_in ''Integer'' (py_strip line)
     \<and> \<not> py_in '':'' (py_strip line) \<and> \<not> py_in ''='' (py_strip line)
     \<and> \<not> endswith (py_strip line) ''_''"
  by (simp add: is_useless_dim_def Let_def py_strip_idem)

lemma dim_not_end_if: "startswith s ''Dim '' \<Longrightarrow> \<not> startswith s ''End If''"
proof
  assume a: "startswith s ''Dim ''" and b: "startswith s ''End If''"
  have "hd s = CHR ''D''" using startswith_hd [OF a] by simp
  moreover have "hd s = CHR ''E''" using startswith_hd [OF b] by simp
  ultimately show False by simp
qed

lemma dim_not_app_run: "startswith s ''Dim '' \<Longrightarrow> \<not> startswith s ''Application.Run''"
proof
  assume a: "startswith s ''Dim ''" and b: "startswith s ''Application.Run''"
  have "hd s = CHR ''D''" using startswith_hd [OF a] by simp
  moreover have "hd s = CHR ''A''" using startswith_hd [OF b] by simp
  ultimately show False by simp
qed

lemma no_eq_not_commented:
  assumes "i < length ls" and "\<not> py_in ''='' (ls ! i)"
  shows "Suc i \<notin> comment_lines ls"
proof
  assume "Suc i \<in> comment_lines ls"
  then have "assigned_vars (ls ! (Suc i - 1)) (external_funcs (scan_lines (take (Suc i) ls))) \<noteq> []"
    using comment_lines_assigned by blast
  then show False using assms(2) no_eq_no_assign by simp
qed

section \<open>The \<^verbatim>\<open>Application.Run\<close> repair\<close>

lemma py_in_prefix: "py_in sub (sub @ b)"
proof (cases "sub @ b")
  case Nil
  then show ?thesis by simp
next
  case (Cons a l)
  have "startswith (sub @ b) sub" by (simp add: startswith_def)
  then show ?thesis using Cons by simp
qed

lemma py_in_append: "py_in sub (a @ sub @ b)"
  by (induction a) (auto simp: py_in_prefix)

lemma py_replace_char: "py_replace [c] [] s = filter (\<lambda>x. x \<noteq> c) s"
proof (induction s)
  case Nil
  show ?case by simp
next
  case (Cons x s)
  show ?case
  proof (cases "x = c")
    case True
    then show ?thesis using Cons by (simp add: startswith_def)
  next
    case False
    then show ?thesis using Cons by (simp add: startswith_def)
  qed
qed

lemma py_split_nonempty: "py_split c s \<noteq> []"
  by (induction s) (auto split: list.splits)

lemma length_py_split: "Suc 0 < length (py_split c s) \<longleftrightarrow> c \<in> set s"
proof (induction s)
  case Nil
  show ?case by simp
next
  case (Cons x s)
  show ?case
  proof (cases "x = c")
    case True
    then show ?thesis using py_split_nonempty [of c s] by (cases "py_split c s") simp_all
  next
    case False
    then show ?thesis using Cons py_split_nonempty [of c s] by (cases "py_split c s") auto
  qed
qed

lemma hd_py_split: "hd (py_split c s) = takeWhile (\<lambda>x. x \<noteq> c) s"
proof (induction s)
  case Nil
  show ?case by simp
next
  case (Cons x s)
  then show ?case using py_split_nonempty [of c s] by (cases "py_split c s") auto
qed

lemma interesting_no_assign: "is_interesting_call line ext \<Longrightarrow> assigned_vars line ext = []"
  by (simp add: assigned_vars_def Let_def)

lemma app_run_names_run:
  assumes "startswith (py_strip line) ''Application.Run''"
  shows "py_in ''Run'' line"
proof -
  obtain ws t where "line = ws @ ''Application.Run'' @ t"
    using strip_prefix_decomp [OF assms] by blast
  then have "line = (ws @ ''Application.'') @ ''Run'' @ t" by simp
  then show ?thesis using py_in_append by metis
qed

lemma app_run_not_commented:
  assumes "i < length ls" and "startswith (py_strip (ls ! i)) ''Application.Run''"
  shows "Suc i \<notin> comment_lines ls"
proof
  assume "Suc i \<in> comment_lines ls"
  then have a: "assigned_vars (ls ! (Suc i - 1)) (external_funcs (scan_lines (take (Suc i) ls))) \<noteq> []"
    using comment_lines_assigned by blast
  have "py_in ''Run'' (ls ! i)" using assms(2) by (rule app_run_names_run)
  then have "is_interesting_call (ls ! i) (external_funcs (scan_lines (take (Suc i) ls)))"
    by (simp add: is_interesting_call_def log_funcs_def)
  then show False using a interesting_no_assign by simp
qed

lemma endswith_last: "endswith s (p @ [c]) \<Longrightarrow> s \<noteq> [] \<and> last s = c"
proof -
  assume a: "endswith s (p @ [c])"
  define n where "n = length s - length (p @ [c])"
  have l: "length (p @ [c]) \<le> length s" and d: "drop n s = p @ [c]"
    using a by (simp_all add: endswith_def n_def)
  have ne: "s \<noteq> []" using l by auto
  have "n < length s" using l by (simp add: n_def)
  then have "last (drop n s) = last s" by (rule last_drop)
  then show ?thesis using d ne by simp
qed

lemma last_py_strip:
  assumes "s \<noteq> []" and "\<not> is_space (last s)"
  shows "py_strip s \<noteq> [] \<and> last (py_strip s) = last s"
proof -
  have s: "s = butlast s @ [last s]" using assms(1) by simp
  obtain ys where ys: "dropWhile is_space (butlast s @ [last s]) = ys @ [last s]"
    using dropWhile_snoc_keep [of is_space "last s" "butlast s"] assms(2) by blast
  then have d: "dropWhile is_space s = ys @ [last s]" using s by simp
  then have "py_strip s = ys @ [last s]" using assms(2) by (simp add: py_strip_def)
  then show ?thesis by simp
qed

lemma quote_end_not_end_function:
  assumes "endswith (py_strip line) [CHR 0x22]"
  shows "\<not> endswith line ''End Function''"
proof
  assume e: "endswith line ''End Function''"
  have "line \<noteq> [] \<and> last line = CHR ''n''"
    using endswith_last [of line "''End Functio''" "CHR ''n''"] e by simp
  then have "last (py_strip line) = CHR ''n''"
    using last_py_strip [of line] by (simp add: is_space_def)
  moreover have "last (py_strip line) = CHR 0x22"
    using endswith_last [of "py_strip line" "[]" "CHR 0x22"] assms by simp
  ultimately show False by simp
qed

lemma app_run_not_if: "startswith s ''Application.Run'' \<Longrightarrow>
    \<not> startswith s ''If '' \<and> \<not> startswith s ''End If'' \<and> \<not> startswith s ''Dim ''"
proof (intro conjI notI)
  assume a: "startswith s ''Application.Run''"
  have h: "hd s = CHR ''A''" using startswith_hd [OF a] by simp
  { assume b: "startswith s ''If ''"
    have "hd s = CHR ''I''" using startswith_hd [OF b] by simp
    then show False using h by simp }
  { assume b: "startswith s ''End If''"
    have "hd s = CHR ''E''" using startswith_hd [OF b] by simp
    then show False using h by simp }
  { assume b: "startswith s ''Dim ''"
    have "hd s = CHR ''D''" using startswith_hd [OF b] by simp
    then show False using h by simp }
qed

text \<open>
  C8, amended.  A line of the input whose stripped text starts with \<^verbatim>\<open>Application.Run\<close>
  and ends with a double quote, and which holds exactly two double quotes, is emitted by
  the third loop with the quotes and every \<^verbatim>\<open>Application.Run\<close> deleted; the result is
  prefixed with \<^verbatim>\<open>WScript.Shell\<close> and a space exactly when it holds a comma and the text
  before the first comma, stripped, holds no space.  A line with another number of
  quotes, or not ending with a quote, is left as it is by this repair.
\<close>

theorem application_run_rewritten:
  "(i < length ls \<and> startswith (py_strip (ls ! i)) ''Application.Run''
      \<and> py_count (CHR 0x22) (ls ! i) = 2 \<and> endswith (py_strip (ls ! i)) [CHR 0x22]
    \<longrightarrow> rewrite_step (comment_lines ls) (Suc i) ic (ls ! i) =
          (let core = py_replace ''Application.Run'' [] (filter (\<lambda>c. c \<noteq> CHR 0x22) (ls ! i))
           in ([if CHR '','' \<in> set core
                    \<and> \<not> py_in '' '' (py_strip (takeWhile (\<lambda>c. c \<noteq> CHR '','') core))
                then ''WScript.Shell '' @ core else core], ic)))
   \<and> (py_count (CHR 0x22) line \<noteq> 2 \<or> \<not> endswith (py_strip line) [CHR 0x22]
        \<longrightarrow> fix_application_run line = line)"
proof (intro conjI impI)
  assume a: "i < length ls \<and> startswith (py_strip (ls ! i)) ''Application.Run''
      \<and> py_count (CHR 0x22) (ls ! i) = 2 \<and> endswith (py_strip (ls ! i)) [CHR 0x22]"
  let ?l = "ls ! i"
  have 1: "\<not> startswith (py_strip ?l) ''If '' \<and> \<not> startswith (py_strip ?l) ''End If''
           \<and> \<not> startswith (py_strip ?l) ''Dim ''"
    using a app_run_not_if by blast
  have 2: "Suc i \<notin> comment_lines ls" using a app_run_not_commented by blast
  have 3: "\<not> is_useless_call ?l" using a app_run_not_useless_call by blast
  have 4: "\<not> is_useless_dim ?l" using 1 by (simp add: is_useless_dim_iff)
  have 5: "\<not> endswith ?l ''End Function''" using a quote_end_not_end_function by blast
  have 6: "fix_application_run ?l =
          (let core = py_replace ''Application.Run'' [] (filter (\<lambda>c. c \<noteq> CHR 0x22) ?l)
           in if CHR '','' \<in> set core
                    \<and> \<not> py_in '' '' (py_strip (takeWhile (\<lambda>c. c \<noteq> CHR '','') core))
              then ''WScript.Shell '' @ core else core)"
    using a by (simp add: fix_application_run_def Let_def py_replace_char length_py_split hd_py_split)
  have "rewrite_step (comment_lines ls) (Suc i) ic ?l = ([fix_application_run ?l], ic)"
    using 1 2 3 4 5 by (simp add: rewrite_step_def Let_def)
  then show "rewrite_step (comment_lines ls) (Suc i) ic ?l =
          (let core = py_replace ''Application.Run'' [] (filter (\<lambda>c. c \<noteq> CHR 0x22) ?l)
           in ([if CHR '','' \<in> set core
                    \<and> \<not> py_in '' '' (py_strip (takeWhile (\<lambda>c. c \<noteq> CHR '','') core))
                then ''WScript.Shell '' @ core else core], ic))"
    using 6 by (simp add: Let_def)
next
  assume "py_count (CHR 0x22) line \<noteq> 2 \<or> \<not> endswith (py_strip line) [CHR 0x22]"
  then show "fix_application_run line = line" by (auto simp: fix_application_run_def)
qed


theorem application_run_rewritten_witness:
  "0 < length [''Application.Run '' @ [CHR 0x22] @ ''foo, bar baz'' @ [CHR 0x22]]
   \<and> startswith (py_strip ([''Application.Run '' @ [CHR 0x22] @ ''foo, bar baz'' @ [CHR 0x22]] ! 0))
         ''Application.Run''
   \<and> py_count (CHR 0x22) ([''Application.Run '' @ [CHR 0x22] @ ''foo, bar baz'' @ [CHR 0x22]] ! 0) = 2
   \<and> endswith (py_strip ([''Application.Run '' @ [CHR 0x22] @ ''foo, bar baz'' @ [CHR 0x22]] ! 0))
         [CHR 0x22]
   \<and> rewrite_step (comment_lines [''Application.Run '' @ [CHR 0x22] @ ''foo, bar baz'' @ [CHR 0x22]])
         (Suc 0) 0 ([''Application.Run '' @ [CHR 0x22] @ ''foo, bar baz'' @ [CHR 0x22]] ! 0)
       = ([''WScript.Shell  foo, bar baz''], 0)
   \<and> \<not> endswith (py_strip (''Application.Run '' @ [CHR 0x22] @ ''foo'' @ [CHR 0x22] @ '', 1''))
         [CHR 0x22]
   \<and> fix_application_run (''Application.Run '' @ [CHR 0x22] @ ''foo'' @ [CHR 0x22] @ '', 1'')
       = ''Application.Run '' @ [CHR 0x22] @ ''foo'' @ [CHR 0x22] @ '', 1''"
proof -
  let ?ls = "[''Application.Run '' @ [CHR 0x22] @ ''foo, bar baz'' @ [CHR 0x22]]"
  let ?l2 = "''Application.Run '' @ [CHR 0x22] @ ''foo'' @ [CHR 0x22] @ '', 1''"
  have h: "0 < length ?ls \<and> startswith (py_strip (?ls ! 0)) ''Application.Run''
      \<and> py_count (CHR 0x22) (?ls ! 0) = 2 \<and> endswith (py_strip (?ls ! 0)) [CHR 0x22]"
    by code_simp
  have g: "\<not> endswith (py_strip ?l2) [CHR 0x22]" by code_simp
  have v: "(let core = py_replace ''Application.Run'' [] (filter (\<lambda>c. c \<noteq> CHR 0x22) (?ls ! 0))
           in ([if CHR '','' \<in> set core
                    \<and> \<not> py_in '' '' (py_strip (takeWhile (\<lambda>c. c \<noteq> CHR '','') core))
                then ''WScript.Shell '' @ core else core], 0::int))
        = ([''WScript.Shell  foo, bar baz''], 0)"
    by code_simp
  have 1: "rewrite_step (comment_lines ?ls) (Suc 0) 0 (?ls ! 0) = ([''WScript.Shell  foo, bar baz''], 0)"
    using application_run_rewritten [of 0 ?ls 0 ?l2] h v by (simp only:)
  have 2: "fix_application_run ?l2 = ?l2"
    using application_run_rewritten [of 0 ?ls 0 ?l2] g by blast
  show ?thesis using h g 1 2 by blast
qed

text \<open>
  C8 as stated fails twice.  \<^verbatim>\<open>Application.Run "foo"\<close> starts with \<^verbatim>\<open>Application.Run\<close>
  and holds two quotes, and its first comma-separated field holds no space, yet no
  \<^verbatim>\<open>WScript.Shell\<close> is put in front: there is no comma.  \<^verbatim>\<open>Application.Run "foo", 1\<close>
  starts with \<^verbatim>\<open>Application.Run\<close> and holds two quotes, yet is not rewritten: it does
  not end with a quote.
\<close>

theorem application_run_counterexample:
  "startswith (py_strip (''Application.Run '' @ [CHR 0x22] @ ''foo'' @ [CHR 0x22])) ''Application.Run''
   \<and> py_count (CHR 0x22) (''Application.Run '' @ [CHR 0x22] @ ''foo'' @ [CHR 0x22]) = 2
   \<and> \<not> py_in '' '' (py_strip (hd (py_split (CHR '','') '' foo'')))
   \<and> strip_useless_code (''Application.Run '' @ [CHR 0x22] @ ''foo'' @ [CHR 0x22])
       = '' foo'' @ [CHR 0x0A, CHR 0x0A]
   \<and> startswith (py_strip (''Application.Run '' @ [CHR 0x22] @ ''foo'' @ [CHR 0x22] @ '', 1''))
         ''Application.Run''
   \<and> py_count (CHR 0x22) (''Application.Run '' @ [CHR 0x22] @ ''foo'' @ [CHR 0x22] @ '', 1'') = 2
   \<and> strip_useless_code (''Application.Run '' @ [CHR 0x22] @ ''foo'' @ [CHR 0x22] @ '', 1'')
       = ''Application.Run '' @ [CHR 0x22] @ ''foo'' @ [CHR 0x22] @ '', 1'' @ [CHR 0x0A, CHR 0x0A]"
  by code_simp

section \<open>The tests of the first loop\<close>

lemma external_funcs_scan:
  "external_funcs (scan_lines xs) =
     map py_strip (filter (\<lambda>l. py_in ''Declare'' l \<and> py_in ''Lib'' l) xs)"
proof (induction xs rule: rev_induct)
  case Nil
  show ?case by (simp add: scan_lines_def scan_init_def)
next
  case (snoc x xs)
  then show ?case by (simp add: scan_lines_snoc scan_step_def Let_def)
qed

lemma in_set_dropWhile: "c \<in> set xs \<Longrightarrow> \<not> P c \<Longrightarrow> c \<in> set (dropWhile P xs)"
  by (induction xs) auto

lemma nonspace_in_strip: "c \<in> set s \<Longrightarrow> \<not> is_space c \<Longrightarrow> c \<in> set (py_strip s)"
proof -
  assume a: "c \<in> set s" and b: "\<not> is_space c"
  have "c \<in> set (dropWhile is_space s)" using a b by (rule in_set_dropWhile)
  then have "c \<in> set (rev (dropWhile is_space s))" by simp
  then have "c \<in> set (dropWhile is_space (rev (dropWhile is_space s)))"
    using b by (rule in_set_dropWhile)
  then show ?thesis by (simp add: py_strip_def)
qed

lemma eq_not_useless_dim: "py_in ''='' line \<Longrightarrow> \<not> is_useless_dim line"
proof -
  assume "py_in ''='' line"
  then have "CHR ''='' \<in> set line" by (simp add: py_in_char)
  then have "CHR ''='' \<in> set (py_strip line)"
    by (rule nonspace_in_strip) (simp add: is_space_def)
  then have "py_in ''='' (py_strip line)" by (simp add: py_in_char)
  then show ?thesis by (simp add: is_useless_dim_iff)
qed

text \<open>
  The tests of the first loop, as far as they go: a line is not put in the set
  \<^verbatim>\<open>comment_lines\<close> when it holds the name of a tracked builtin (one of \<open>log_funcs\<close>,
  \<^verbatim>\<open>GetObject\<close> or \<^verbatim>\<open>Shell\<close>, in this spelling) or of a function whose \<^verbatim>\<open>Declare\<close> line
  the loop has already read, or when its text after the last \<^verbatim>\<open>=\<close> holds a dot or
  \<^verbatim>\<open>CreateObject\<close>.
\<close>

lemma first_loop_tests:
  "i < length ls
   \<and> (is_interesting_call (ls ! i)
         (map py_strip (filter (\<lambda>l. py_in ''Declare'' l \<and> py_in ''Lib'' l) (take (Suc i) ls)))
       \<or> py_in ''GetObject'' (ls ! i) \<or> py_in ''Shell'' (ls ! i)
       \<or> py_in ''.'' (assigned_val (ls ! i)) \<or> py_in ''CreateObject'' (assigned_val (ls ! i)))
   \<longrightarrow> Suc i \<notin> comment_lines ls
       \<and> (py_in ''='' (ls ! i) \<and> \<not> startswith (py_strip (ls ! i)) ''End If''
            \<longrightarrow> fst (rewrite_step (comment_lines ls) (Suc i) ic (ls ! i)) =
                  (if endswith (ls ! i) ''End Function'' \<and> length (ls ! i) > length ''End Function''
                   then [py_replace ''End Function'' [] (ls ! i), ''End Function'']
                   else [fix_application_run (ls ! i)]))"
proof (intro impI)
  assume a: "i < length ls
   \<and> (is_interesting_call (ls ! i)
         (map py_strip (filter (\<lambda>l. py_in ''Declare'' l \<and> py_in ''Lib'' l) (take (Suc i) ls)))
       \<or> py_in ''GetObject'' (ls ! i) \<or> py_in ''Shell'' (ls ! i)
       \<or> py_in ''.'' (assigned_val (ls ! i)) \<or> py_in ''CreateObject'' (assigned_val (ls ! i)))"
  let ?l = "ls ! i"
  let ?ext = "external_funcs (scan_lines (take (Suc i) ls))"
  have "is_interesting_call ?l ?ext
       \<or> py_in ''GetObject'' ?l \<or> py_in ''Shell'' ?l
       \<or> py_in ''.'' (assigned_val ?l) \<or> py_in ''CreateObject'' (assigned_val ?l)"
    using a by (simp add: external_funcs_scan)
  then have e: "assigned_vars ?l ?ext = []"
    by (auto simp: assigned_vars_def Let_def)
  have nc: "Suc i \<notin> comment_lines ls"
  proof
    assume "Suc i \<in> comment_lines ls"
    then have "assigned_vars (ls ! (Suc i - 1)) ?ext \<noteq> []"
      using comment_lines_assigned by blast
    then show False using e by simp
  qed
  have "py_in ''='' ?l \<and> \<not> startswith (py_strip ?l) ''End If''
            \<longrightarrow> fst (rewrite_step (comment_lines ls) (Suc i) ic ?l) =
                  (if endswith ?l ''End Function'' \<and> length ?l > length ''End Function''
                   then [py_replace ''End Function'' [] ?l, ''End Function'']
                   else [fix_application_run ?l])"
  proof
    assume b: "py_in ''='' ?l \<and> \<not> startswith (py_strip ?l) ''End If''"
    then have 1: "\<not> is_useless_call ?l" by (simp add: is_useless_call_def)
    have 2: "\<not> is_useless_dim ?l" using b eq_not_useless_dim by blast
    show "fst (rewrite_step (comment_lines ls) (Suc i) ic ?l) =
                  (if endswith ?l ''End Function'' \<and> length ?l > length ''End Function''
                   then [py_replace ''End Function'' [] ?l, ''End Function'']
                   else [fix_application_run ?l])"
      using b nc 1 2 by (simp add: rewrite_step_def Let_def)
  qed
  then show "Suc i \<notin> comment_lines ls
       \<and> (py_in ''='' ?l \<and> \<not> startswith (py_strip ?l) ''End If''
            \<longrightarrow> fst (rewrite_step (comment_lines ls) (Suc i) ic ?l) =
                  (if endswith ?l ''End Function'' \<and> length ?l > length ''End Function''
                   then [py_replace ''End Function'' [] ?l, ''End Function'']
                   else [fix_application_run ?l]))"
    using nc by blast
qed

text \<open>
  C4.  The claim does not hold of the code, and the code misses what its own comment
  announces (\<^verbatim>\<open>Save external function declarations lines so we can avoid stripping calls
  to external functions\<close>): the first loop collects the declarations while it tests the
  lines, so a call that stands before the \<^verbatim>\<open>Declare\<close> line of its function is tested
  against a list that does not hold the function yet.  In the text below the assignment
  \<^verbatim>\<open>x = MyFunc(1)\<close> names the external function \<^verbatim>\<open>MyFunc\<close>; \<^verbatim>\<open>x\<close> is referenced nowhere
  else, and \<^verbatim>\<open>strip_useless_code\<close> removes the line.
\<close>

theorem call_before_declaration_stripped:
  "ext_func_name (py_strip (''Declare Function MyFunc Lib '' @ [CHR 0x22] @ ''k'' @ [CHR 0x22] @ '' ()''))
     = ''MyFunc''
   \<and> findall_assign ''x = MyFunc(1)'' = [''x'']
   \<and> py_in ''MyFunc'' ''x = MyFunc(1)''
   \<and> strip_useless_code
        (''x = MyFunc(1)'' @ [CHR 0x0A]
         @ ''Declare Function MyFunc Lib '' @ [CHR 0x22] @ ''k'' @ [CHR 0x22] @ '' ()'')
     = ''Declare Function MyFunc Lib '' @ [CHR 0x22] @ ''k'' @ [CHR 0x22] @ '' ()''
       @ [CHR 0x0A, CHR 0x0A]"
  by code_simp

text \<open>
  Two more lines with a call that the emulator tracks, and that \<^verbatim>\<open>strip_useless_code\<close>
  removes: a call of \<^verbatim>\<open>Shell\<close> inside a call of \<^verbatim>\<open>Log\<close> on a line of its own (the line
  is a useless call), and an assignment from \<^verbatim>\<open>shell\<close> written in lower case (the test
  for \<^verbatim>\<open>Shell\<close> looks at this spelling only, while Visual Basic does not tell the two
  apart).
\<close>

lemma shell_inside_log_stripped:
  "py_in ''Shell'' (''Log (Shell('' @ [CHR 0x22] @ ''calc'' @ [CHR 0x22] @ ''))'')
   \<and> strip_useless_code (''Log (Shell('' @ [CHR 0x22] @ ''calc'' @ [CHR 0x22] @ ''))'')
       = [CHR 0x0A]"
  by code_simp

lemma lower_case_shell_stripped:
  "strip_useless_code (''x = shell('' @ [CHR 0x22] @ ''calc'' @ [CHR 0x22] @ '')'') = [CHR 0x0A]"
  by code_simp


section \<open>A parse failure\<close>

lemma serial_loop_fail:
  "snd (parse_stream W su s) = Inr None \<Longrightarrow>
     serial_loop W su r (s # rest) = (fst (parse_stream W su s), Inr None)"
  by (cases "parse_stream W su s") simp

lemma serial_loop_ok:
  "snd (parse_stream W su s) = Inr (Some m) \<Longrightarrow>
     serial_loop W su r (s # rest) =
       (fst (parse_stream W su s) @ fst (serial_loop W su (r @ [m]) rest),
        snd (serial_loop W su (r @ [m]) rest))"
  by (cases "parse_stream W su s") (simp split: prod.splits)

lemma parse_stream_empty:
  "py_strip (normalized_code W su (snd (snd (snd s)))) = [] \<Longrightarrow>
     parse_stream W su s = (stream_banner W s @ [Print ''(empty macro)''], Inr (Some Empty_macro))"
  by (simp add: parse_stream_def Let_def)

lemma parse_stream_error:
  "py_strip (normalized_code W su (snd (snd (snd s)))) \<noteq> [] \<Longrightarrow>
   parse_module W (normalized_code W su (snd (snd (snd s))) @ [CHR 0x0A])
     = ParseException err_line err_column err_str \<Longrightarrow>
     parse_stream W su s =
       (stream_banner W s @
          [Print (replicate 79 (CHR ''-'')),
           Print ''VBA CODE (with long lines collapsed):'',
           Print (normalized_code W su (snd (snd (snd s)))),
           Print (replicate 79 (CHR ''-'')),
           Print ''PARSING VBA CODE:'',
           Print err_line,
           Print (replicate (err_column - 1) (CHR '' '') @ ''^''),
           Print err_str,
           Print ''Parse Error. Processing Aborted.''],
        Inr None)"
  by (simp add: parse_stream_def Let_def)

text \<open>The streams before a failing one are parsed, those after it are not.\<close>

lemma serial_loop_abort:
  assumes "\<forall>p \<in> set pre. \<exists>m. snd (parse_stream W su p) = Inr (Some m)"
      and "snd (parse_stream W su s) = Inr None"
  shows "serial_loop W su r (pre @ s # post) =
           (concat (map (\<lambda>p. fst (parse_stream W su p)) (pre @ [s])), Inr None)"
  using assms(1)
proof (induction pre arbitrary: r)
  case Nil
  show ?case using serial_loop_fail [OF assms(2), of r post] by (simp del: serial_loop.simps)
next
  case (Cons p pre)
  then obtain m where m: "snd (parse_stream W su p) = Inr (Some m)" by auto
  have "serial_loop W su (r @ [m]) (pre @ s # post) =
           (concat (map (\<lambda>p. fst (parse_stream W su p)) (pre @ [s])), Inr None)"
    using Cons by simp
  then show ?case using serial_loop_ok [OF m, of r "pre @ s # post"]
    by (simp del: serial_loop.simps)
qed

text \<open>
  C1, amended.  A stream that does not parse makes \<^verbatim>\<open>parse_stream\<close> print the line of the
  error, a caret under its column, the parser's message and
  \<^verbatim>\<open>Parse Error. Processing Aborted.\<close>, and return \<^verbatim>\<open>None\<close>.  \<^verbatim>\<open>parse_streams_serial\<close> then
  returns \<^verbatim>\<open>None\<close> at once: the streams before the failing one have been parsed, those
  after it are not, and \<^verbatim>\<open>process_file\<close> returns \<^verbatim>\<open>None\<close> for the document without
  emulating anything.
\<close>

theorem parse_failure_aborts_document:
  "(py_strip (normalized_code W su (snd (snd (snd s)))) \<noteq> []
     \<and> parse_module W (normalized_code W su (snd (snd (snd s))) @ [CHR 0x0A])
         = ParseException err_line err_column err_str
   \<longrightarrow>
     parse_stream W su s =
       (stream_banner W s @
          [Print (replicate 79 (CHR ''-'')),
           Print ''VBA CODE (with long lines collapsed):'',
           Print (normalized_code W su (snd (snd (snd s)))),
           Print (replicate 79 (CHR ''-'')),
           Print ''PARSING VBA CODE:'',
           Print err_line,
           Print (replicate (err_column - 1) (CHR '' '') @ ''^''),
           Print err_str,
           Print ''Parse Error. Processing Aborted.''],
        Inr None))
   \<and> ((\<forall>p \<in> set pre. \<exists>m. snd (parse_stream W su p) = Inr (Some m))
       \<and> snd (parse_stream W su s) = Inr None
       \<and> extract_macros W vba = Inr (pre @ s # post)
     \<longrightarrow>
       parse_streams_serial W su vba =
         (concat (map (\<lambda>p. fst (parse_stream W su p)) (pre @ [s])), Inr None)
       \<and> (new_vm W = None \<and> vba_parser W = Inr vba \<and> detect_vba_macros W vba = Inr True
           \<longrightarrow> snd (process_file W su) = Inr None))"
proof (intro conjI impI)
  assume "py_strip (normalized_code W su (snd (snd (snd s)))) \<noteq> []
     \<and> parse_module W (normalized_code W su (snd (snd (snd s))) @ [CHR 0x0A])
         = ParseException err_line err_column err_str"
  then show "parse_stream W su s =
       (stream_banner W s @
          [Print (replicate 79 (CHR ''-'')),
           Print ''VBA CODE (with long lines collapsed):'',
           Print (normalized_code W su (snd (snd (snd s)))),
           Print (replicate 79 (CHR ''-'')),
           Print ''PARSING VBA CODE:'',
           Print err_line,
           Print (replicate (err_column - 1) (CHR '' '') @ ''^''),
           Print err_str,
           Print ''Parse Error. Processing Aborted.''],
        Inr None)"
    using parse_stream_error by blast
next
  assume a: "(\<forall>p \<in> set pre. \<exists>m. snd (parse_stream W su p) = Inr (Some m))
       \<and> snd (parse_stream W su s) = Inr None
       \<and> extract_macros W vba = Inr (pre @ s # post)"
  then have "serial_loop W su [] (pre @ s # post) =
           (concat (map (\<lambda>p. fst (parse_stream W su p)) (pre @ [s])), Inr None)"
    using serial_loop_abort by blast
  then show ps: "parse_streams_serial W su vba =
         (concat (map (\<lambda>p. fst (parse_stream W su p)) (pre @ [s])), Inr None)"
    using a by (simp add: parse_streams_serial_def)
  assume b: "new_vm W = None \<and> vba_parser W = Inr vba \<and> detect_vba_macros W vba = Inr True"
  show "snd (process_file W su) = Inr None"
    using b ps by (simp add: process_file_def process_file_body_def parse_streams_def Let_def)
qed

theorem parse_failure_aborts_document_witness:
  "py_strip (normalized_code example_doc False
       (snd (snd (snd (''doc'', ''Macros/B'', ''B.bas'', ''bad''))))) \<noteq> []
   \<and> parse_module example_doc (normalized_code example_doc False
       (snd (snd (snd (''doc'', ''Macros/B'', ''B.bas'', ''bad'')))) @ [CHR 0x0A])
       = ParseException ''bad'' 1 ''Expected statement''
   \<and> snd (parse_stream example_doc False (''doc'', ''Macros/A'', ''A.bas'', ''good''))
       = Inr (Some (Module (''good'' @ [CHR 0x0A])))
   \<and> snd (parse_stream example_doc False (''doc'', ''Macros/B'', ''B.bas'', ''bad'')) = Inr None
   \<and> extract_macros example_doc () =
       Inr ([(''doc'', ''Macros/A'', ''A.bas'', ''good'')] @ (''doc'', ''Macros/B'', ''B.bas'', ''bad'')
            # [(''doc'', ''Macros/C'', ''C.bas'', ''fine''), (''doc'', ''Macros/D'', ''D.bas'', '' '')])
   \<and> new_vm example_doc = None \<and> vba_parser example_doc = Inr ()
   \<and> detect_vba_macros example_doc () = Inr True
   \<and> snd (parse_streams_serial example_doc False ()) = Inr None
   \<and> snd (process_file example_doc False) = Inr None"
proof -
  let ?s = "(''doc'', ''Macros/B'', ''B.bas'', ''bad'')"
  let ?pre = "[(''doc'', ''Macros/A'', ''A.bas'', ''good'')]"
  let ?post = "[(''doc'', ''Macros/C'', ''C.bas'', ''fine''), (''doc'', ''Macros/D'', ''D.bas'', '' '')]"
  have h1: "py_strip (normalized_code example_doc False (snd (snd (snd ?s)))) \<noteq> []
     \<and> parse_module example_doc (normalized_code example_doc False (snd (snd (snd ?s))) @ [CHR 0x0A])
         = ParseException ''bad'' 1 ''Expected statement''"
    by code_simp
  have h0: "snd (parse_stream example_doc False (''doc'', ''Macros/A'', ''A.bas'', ''good''))
          = Inr (Some (Module (''good'' @ [CHR 0x0A])))"
    by code_simp
  then have h2: "\<forall>p \<in> set ?pre. \<exists>m. snd (parse_stream example_doc False p) = Inr (Some m)"
    by simp
  have h3: "snd (parse_stream example_doc False ?s) = Inr None" by code_simp
  have h4: "extract_macros example_doc () = Inr (?pre @ ?s # ?post)" by code_simp
  have h5: "new_vm example_doc = None \<and> vba_parser example_doc = Inr ()
     \<and> detect_vba_macros example_doc () = Inr True" by code_simp
  have c: "parse_streams_serial example_doc False () =
         (concat (map (\<lambda>p. fst (parse_stream example_doc False p)) (?pre @ [?s])), Inr None)
       \<and> (new_vm example_doc = None \<and> vba_parser example_doc = Inr ()
            \<and> detect_vba_macros example_doc () = Inr True
           \<longrightarrow> snd (process_file example_doc False) = Inr None)"
    using parse_failure_aborts_document [of example_doc False ?s "''bad''" 1 "''Expected statement''" ?pre "()" ?post]
      h2 h3 h4 by blast
  then have c1: "snd (parse_streams_serial example_doc False ()) = Inr None" by simp
  have c2: "snd (process_file example_doc False) = Inr None" using c h5 by blast
  show ?thesis using h0 h1 h3 h4 h5 c1 c2 by blast
qed

text \<open>
  C1 as stated fails: in the example document the second stream does not parse; the
  third would parse, yet it is never reached (its banner is not printed) and the
  document's result is \<^verbatim>\<open>None\<close>.
\<close>

theorem parse_failure_counterexample:
  "extract_macros example_doc () =
      Inr [(''doc'', ''Macros/A'', ''A.bas'', ''good''), (''doc'', ''Macros/B'', ''B.bas'', ''bad''),
           (''doc'', ''Macros/C'', ''C.bas'', ''fine''), (''doc'', ''Macros/D'', ''D.bas'', '' '')]
   \<and> snd (parse_stream example_doc False (''doc'', ''Macros/B'', ''B.bas'', ''bad'')) = Inr None
   \<and> snd (parse_stream example_doc False (''doc'', ''Macros/C'', ''C.bas'', ''fine''))
       = Inr (Some (Module (''fine'' @ [CHR 0x0A])))
   \<and> Print ''VBA MACRO C.bas '' \<notin> set (fst (process_file example_doc False))
   \<and> snd (process_file example_doc False) = Inr None"
  by code_simp


section \<open>Empty streams\<close>

lemma compiled_modules_append:
  "compiled_modules (xs @ ys) = compiled_modules xs @ compiled_modules ys"
  by (induction xs rule: compiled_modules.induct) simp_all

lemma serial_loop_compiled:
  "compiled_modules r = compiled_modules r' \<Longrightarrow>
     fst (serial_loop W su r ss) = fst (serial_loop W su r' ss)
     \<and> compiled_result (snd (serial_loop W su r ss))
       = compiled_result (snd (serial_loop W su r' ss))"
proof (induction ss arbitrary: r r')
  case Nil
  then show ?case by simp
next
  case (Cons s ss)
  obtain out res where p: "parse_stream W su s = (out, res)" by (cases "parse_stream W su s")
  show ?case
  proof (cases res)
    case (Inl e)
    then show ?thesis using p by simp
  next
    case (Inr mo)
    show ?thesis
    proof (cases mo)
      case None
      then show ?thesis using p Inr by simp
    next
      case (Some m)
      have "compiled_modules (r @ [m]) = compiled_modules (r' @ [m])"
        using Cons.prems by (simp add: compiled_modules_append)
      then have "fst (serial_loop W su (r @ [m]) ss) = fst (serial_loop W su (r' @ [m]) ss)
        \<and> compiled_result (snd (serial_loop W su (r @ [m]) ss))
          = compiled_result (snd (serial_loop W su (r' @ [m]) ss))"
        by (rule Cons.IH)
      moreover have sm: "snd (parse_stream W su s) = Inr (Some m)" using p Inr Some by simp
      ultimately show ?thesis
        using serial_loop_ok [OF sm, of r ss] serial_loop_ok [OF sm, of r' ss]
        by (simp del: serial_loop.simps)
    qed
  qed
qed

lemma serial_loop_skip_empty:
  assumes "snd (parse_stream W su s) = Inr (Some Empty_macro)"
  shows "compiled_result (snd (serial_loop W su r (pre @ s # post)))
       = compiled_result (snd (serial_loop W su r (pre @ post)))"
proof (induction pre arbitrary: r)
  case Nil
  have "compiled_modules (r @ [Empty_macro]) = compiled_modules r"
    by (simp add: compiled_modules_append)
  then have "compiled_result (snd (serial_loop W su (r @ [Empty_macro]) post))
       = compiled_result (snd (serial_loop W su r post))"
    using serial_loop_compiled by blast
  then show ?case using serial_loop_ok [OF assms, of r post] by (simp del: serial_loop.simps)
next
  case (Cons p pre)
  obtain out res where q: "parse_stream W su p = (out, res)" by (cases "parse_stream W su p")
  show ?case
  proof (cases res)
    case (Inl e)
    then show ?thesis using q by simp
  next
    case (Inr mo)
    show ?thesis
    proof (cases mo)
      case None
      then show ?thesis using q Inr by simp
    next
      case (Some m)
      then have sm: "snd (parse_stream W su p) = Inr (Some m)" using q Inr by simp
      show ?thesis
        using serial_loop_ok [OF sm, of r "pre @ s # post"] serial_loop_ok [OF sm, of r "pre @ post"]
          Cons.IH [of "r @ [m]"]
        by (simp del: serial_loop.simps)
    qed
  qed
qed

lemma parse_stream_extract_indep:
  "parse_stream (W\<lparr>extract_macros := f\<rparr>) su s = parse_stream W su s"
  by (simp add: parse_stream_def normalized_code_def stream_banner_def Let_def)

lemma serial_loop_extract_indep:
  "serial_loop (W\<lparr>extract_macros := f\<rparr>) su r ss = serial_loop W su r ss"
  by (induction ss arbitrary: r) (simp_all add: parse_stream_extract_indep)

lemma add_modules_compiled:
  "add_modules W ms = add_modules W (map Module (compiled_modules ms))"
  by (induction ms rule: compiled_modules.induct) (simp_all split: option.splits)

lemma add_modules_cong:
  "compiled_modules ms = compiled_modules ms' \<Longrightarrow> add_modules W ms = add_modules W ms'"
  using add_modules_compiled [of W ms] add_modules_compiled [of W ms'] by simp

lemma add_modules_extract_indep:
  "add_modules (W\<lparr>extract_macros := f\<rparr>) ms = add_modules W ms"
  by (induction ms rule: compiled_modules.induct) (simp_all split: option.splits)

lemma add_modules_none:
  "list_all (\<lambda>m. add_compiled_module W m = None) (compiled_modules ms) \<Longrightarrow>
     add_modules W ms = None"
  by (induction ms rule: compiled_modules.induct) simp_all

lemma compiled_stream_results:
  "compiled_modules (stream_results W su ss) = stream_modules W su ss"
  by (induction ss) (simp_all split: parse_outcome.splits)

lemma parse_stream_parsed:
  "\<not> blank_stream W su s \<Longrightarrow>
   parse_module W (normalized_code W su (snd (snd (snd s))) @ [CHR 0x0A]) = Parsed m \<Longrightarrow>
     snd (parse_stream W su s) = Inr (Some (Module m))"
  by (simp add: parse_stream_def blank_stream_def Let_def)

lemma serial_loop_results:
  "list_all (\<lambda>s. blank_stream W su s \<or> stream_parses W su s) ss \<Longrightarrow>
     snd (serial_loop W su r ss) = Inr (Some (r @ stream_results W su ss))"
proof (induction ss arbitrary: r)
  case Nil
  show ?case by simp
next
  case (Cons s ss)
  have ih: "snd (serial_loop W su r' ss) = Inr (Some (r' @ stream_results W su ss))" for r'
    using Cons by simp
  show ?case
  proof (cases "blank_stream W su s")
    case True
    then have "snd (parse_stream W su s) = Inr (Some Empty_macro)"
      by (simp add: parse_stream_empty blank_stream_def)
    then show ?thesis
      using serial_loop_ok [of W su s Empty_macro r ss] ih [of "r @ [Empty_macro]"] True
      by (simp del: serial_loop.simps)
  next
    case False
    then have "stream_parses W su s" using Cons.prems by simp
    then obtain m where m:
      "parse_module W (normalized_code W su (snd (snd (snd s))) @ [CHR 0x0A]) = Parsed m"
      by (auto simp: stream_parses_def split: parse_outcome.splits)
    then have "snd (parse_stream W su s) = Inr (Some (Module m))"
      using False by (rule parse_stream_parsed [rotated])
    then show ?thesis
      using serial_loop_ok [of W su s "Module m" r ss] ih [of "r @ [Module m]"] False m
      by (simp del: serial_loop.simps)
  qed
qed

lemma read_doc_vars_snd:
  "snd (read_doc_vars W) = Some e \<longleftrightarrow> ole_doc_vars W = Some e \<and> \<not> is_exception e"
  by (auto simp: read_doc_vars_def split: option.splits)

lemma read_custom_doc_props_snd:
  "snd (read_custom_doc_props W) = Some e \<longleftrightarrow> ole_custom_doc_props W = Some e \<and> \<not> is_exception e"
  by (auto simp: read_custom_doc_props_def split: option.splits)

lemma read_doc_text_snd:
  "snd (read_doc_text W) = Some e \<longleftrightarrow> open_doc_text W = Some e \<and> \<not> is_exception e"
  by (auto simp: read_doc_text_def split: option.splits)

text \<open>The statements after the streams are parsed.\<close>

lemma body_add_raises:
  assumes "streams_parsed W su vba ms" and "add_modules W ms = Some e"
  shows "process_file_body W su = (metadata_log W @ fst (parse_streams W su vba), Inl e)"
proof -
  obtain out2 where p: "parse_streams W su vba = (out2, Inr (Some ms))"
    using assms(1) by (cases "parse_streams W su vba") (simp add: streams_parsed_def)
  show ?thesis using assms p
    by (simp add: process_file_body_def streams_parsed_def metadata_log_def Let_def)
qed

lemma body_reader_raises:
  assumes "modules_added W su vba ms"
      and "snd (read_doc_vars W) = Some e
           \<or> snd (read_doc_vars W) = None \<and> snd (read_custom_doc_props W) = Some e
           \<or> snd (read_doc_vars W) = None \<and> snd (read_custom_doc_props W) = None
               \<and> snd (read_doc_text W) = Some e"
  shows "snd (process_file_body W su) = Inl e"
proof -
  obtain out2 where p: "parse_streams W su vba = (out2, Inr (Some ms))"
    using assms(1)
    by (cases "parse_streams W su vba") (simp add: modules_added_def streams_parsed_def)
  obtain o3 r3 where 3: "read_doc_vars W = (o3, r3)" by (cases "read_doc_vars W")
  obtain o4 r4 where 4: "read_custom_doc_props W = (o4, r4)" by (cases "read_custom_doc_props W")
  obtain o5 r5 where 5: "read_doc_text W = (o5, r5)" by (cases "read_doc_text W")
  show ?thesis using assms p 3 4 5
    by (auto simp: process_file_body_def modules_added_def streams_parsed_def Let_def)
qed

lemma body_form_strings_raise:
  assumes "document_read W su vba ms" and "extract_form_strings W = Some e"
  shows "process_file_body W su =
           (read_output W su vba
              @ (if is_exception e
                 then [LogError (''Cannot read form strings. '' @ exn_str e), Traceback e]
                 else []),
            Inl e)"
proof -
  obtain out2 where p: "parse_streams W su vba = (out2, Inr (Some ms))"
    using assms(1)
    by (cases "parse_streams W su vba")
       (simp add: document_read_def modules_added_def streams_parsed_def)
  obtain o3 where 3: "read_doc_vars W = (o3, None)"
    using assms(1) by (cases "read_doc_vars W") (simp add: document_read_def)
  obtain o4 where 4: "read_custom_doc_props W = (o4, None)"
    using assms(1) by (cases "read_custom_doc_props W") (simp add: document_read_def)
  obtain o5 where 5: "read_doc_text W = (o5, None)"
    using assms(1) by (cases "read_doc_text W") (simp add: document_read_def)
  show ?thesis using assms p 3 4 5
    by (simp add: process_file_body_def document_read_def modules_added_def streams_parsed_def
        read_output_def metadata_log_def Let_def)
qed

lemma body_emulate:
  assumes "document_read W su vba ms" and "extract_form_strings W = None"
  shows "process_file_body W su =
           (case trace W (compiled_modules ms) of
              Inl e \<Rightarrow>
                (read_output W su vba
                   @ [Print (replicate 79 (CHR ''-'')),
                      Print ''TRACING VBA CODE (entrypoint = Auto*):''],
                 Inl e)
            | Inr actions \<Rightarrow>
                (case dump_actions W actions of
                   Inl e \<Rightarrow>
                     (read_output W su vba
                        @ [Print (replicate 79 (CHR ''-'')),
                           Print ''TRACING VBA CODE (entrypoint = Auto*):'',
                           Print ''Recorded Actions:''],
                      Inl e)
                 | Inr table \<Rightarrow>
                     (read_output W su vba
                        @ [Print (replicate 79 (CHR ''-'')),
                           Print ''TRACING VBA CODE (entrypoint = Auto*):'',
                           Print ''Recorded Actions:'', Print table, Print []],
                      Inr (Some actions))))"
proof -
  obtain out2 where p: "parse_streams W su vba = (out2, Inr (Some ms))"
    using assms(1)
    by (cases "parse_streams W su vba")
       (simp add: document_read_def modules_added_def streams_parsed_def)
  obtain o3 where 3: "read_doc_vars W = (o3, None)"
    using assms(1) by (cases "read_doc_vars W") (simp add: document_read_def)
  obtain o4 where 4: "read_custom_doc_props W = (o4, None)"
    using assms(1) by (cases "read_custom_doc_props W") (simp add: document_read_def)
  obtain o5 where 5: "read_doc_text W = (o5, None)"
    using assms(1) by (cases "read_doc_text W") (simp add: document_read_def)
  show ?thesis using assms p 3 4 5
    by (simp add: process_file_body_def document_read_def modules_added_def streams_parsed_def
        read_output_def metadata_log_def Let_def split: sum.splits)
qed

lemma read_extract_indep:
  "read_doc_vars (W\<lparr>extract_macros := f\<rparr>) = read_doc_vars W"
  "read_custom_doc_props (W\<lparr>extract_macros := f\<rparr>) = read_custom_doc_props W"
  "read_doc_text (W\<lparr>extract_macros := f\<rparr>) = read_doc_text W"
  by (simp_all add: read_doc_vars_def read_custom_doc_props_def read_doc_text_def
      split: option.splits)

lemma stream_results_length:
  "list_all (\<lambda>s. blank_stream W su s \<or> stream_parses W su s) ss \<Longrightarrow>
     length (stream_results W su ss) = length ss"
  by (induction ss) (auto simp: stream_parses_def split: parse_outcome.splits)

text \<open>The result of \<open>process_file\<close> is a function of the parse result with the
  \<^verbatim>\<open>"empty"\<close> entries left out.\<close>

lemma process_file_compiled:
  assumes "\<And>vba. compiled_result (snd (parse_streams (W\<lparr>extract_macros := f\<rparr>) su vba))
               = compiled_result (snd (parse_streams W su vba))"
  shows "snd (process_file (W\<lparr>extract_macros := f\<rparr>) su) = snd (process_file W su)"
proof -
  let ?W' = "W\<lparr>extract_macros := f\<rparr>"
  have b: "snd (process_file_body ?W' su) = snd (process_file_body W su)"
  proof (cases "vba_parser W")
    case (Inl e)
    then show ?thesis by (simp add: process_file_body_def)
  next
    case (Inr vba)
    show ?thesis
    proof (cases "detect_vba_macros W vba")
      case (Inl e)
      then show ?thesis using Inr by (simp add: process_file_body_def)
    next
      case d: (Inr b)
      show ?thesis
      proof (cases b)
        case False
        then show ?thesis using Inr d by (simp add: process_file_body_def)
      next
        case True
        obtain o1 r1 where p1: "parse_streams W su vba = (o1, r1)"
          by (cases "parse_streams W su vba")
        obtain o2 r2 where p2: "parse_streams ?W' su vba = (o2, r2)"
          by (cases "parse_streams ?W' su vba")
        have rel: "compiled_result r2 = compiled_result r1"
          using assms [of vba] p1 p2 by simp
        show ?thesis
        proof (cases r1)
          case (Inl e)
          then have "r2 = Inl e" using rel by (cases r2 rule: compiled_result.cases) simp_all
          then show ?thesis using Inl Inr d True p1 p2
            by (simp add: process_file_body_def Let_def)
        next
          case r: (Inr mo)
          show ?thesis
          proof (cases mo)
            case None
            then have "r2 = Inr None" using rel r by (cases r2 rule: compiled_result.cases) simp_all
            then show ?thesis using None r Inr d True p1 p2
              by (simp add: process_file_body_def Let_def)
          next
            case (Some ms)
            then have "\<exists>ms'. r2 = Inr (Some ms') \<and> compiled_modules ms' = compiled_modules ms"
              using rel r by (cases r2 rule: compiled_result.cases) simp_all
            then obtain ms' where m2: "r2 = Inr (Some ms')"
              and cm: "compiled_modules ms' = compiled_modules ms"
              by blast
            have am: "add_modules ?W' ms' = add_modules W ms"
              using add_modules_cong [OF cm, of W] by (simp add: add_modules_extract_indep)
            show ?thesis using Some r m2 cm am Inr d True p1 p2
              by (simp add: process_file_body_def Let_def read_extract_indep
                  split: option.splits sum.splits prod.splits)
          qed
        qed
      qed
    qed
  qed
  show ?thesis
  proof (cases "new_vm W")
    case (Some e)
    then show ?thesis by (simp add: process_file_def)
  next
    case None
    obtain o1 r1 where p1: "process_file_body W su = (o1, r1)"
      by (cases "process_file_body W su")
    obtain o2 r2 where p2: "process_file_body ?W' su = (o2, r2)"
      by (cases "process_file_body ?W' su")
    have "r2 = r1" using b p1 p2 by simp
    then show ?thesis using None p1 p2
      by (simp add: process_file_def split: sum.splits)
  qed
qed

lemma process_file_emulated:
  assumes "new_vm W = None" and "document_read W su vba ms"
      and "extract_form_strings W = None"
      and "trace W (compiled_modules ms) = Inr actions"
      and "dump_actions W actions = Inr table"
  shows "process_file W su =
           (file_banner W @ read_output W su vba
              @ [Print (replicate 79 (CHR ''-'')),
                 Print ''TRACING VBA CODE (entrypoint = Auto*):'',
                 Print ''Recorded Actions:'', Print table, Print []],
            Inr (Some actions))"
  using body_emulate [OF assms(2,3)] assms(1,4,5) by (simp add: process_file_def)

text \<open>
  C10.  A stream whose code is empty or white space after normalization makes
  \<^verbatim>\<open>parse_stream\<close> return \<^verbatim>\<open>"empty"\<close> (not a module, not \<^verbatim>\<open>None\<close>).  When every stream of
  the document is blank or parses, \<^verbatim>\<open>parse_streams\<close> returns one entry for each stream,
  \<^verbatim>\<open>"empty"\<close> at the blank ones; the modules handed to the emulator are those of the
  streams that are not blank, in the order of the streams; and when the steps that follow
  raise nothing, \<^verbatim>\<open>process_file\<close> returns the actions the emulator records for these
  modules.  Whatever the other streams do, the result of \<^verbatim>\<open>process_file\<close> is the one it
  has for the document without the blank stream.
\<close>

theorem empty_stream_skipped:
  "(blank_stream W su s \<longrightarrow>
      parse_stream W su s = (stream_banner W s @ [Print ''(empty macro)''], Inr (Some Empty_macro)))
   \<and> (extract_macros W vba = Inr streams
       \<and> list_all (\<lambda>s. blank_stream W su s \<or> stream_parses W su s) streams \<longrightarrow>
      snd (parse_streams W su vba) = Inr (Some (stream_results W su streams))
      \<and> length (stream_results W su streams) = length streams
      \<and> compiled_modules (stream_results W su streams) = stream_modules W su streams)
   \<and> (new_vm W = None \<and> vba_parser W = Inr vba \<and> detect_vba_macros W vba = Inr True
       \<and> extract_macros W vba = Inr streams
       \<and> list_all (\<lambda>s. blank_stream W su s \<or> stream_parses W su s) streams
       \<and> list_all (\<lambda>m. add_compiled_module W m = None) (stream_modules W su streams)
       \<and> snd (read_doc_vars W) = None \<and> snd (read_custom_doc_props W) = None
       \<and> snd (read_doc_text W) = None \<and> extract_form_strings W = None
       \<and> trace W (stream_modules W su streams) = Inr actions
       \<and> dump_actions W actions = Inr table \<longrightarrow>
      snd (process_file W su) = Inr (Some actions))
   \<and> (blank_stream W su s \<and> (\<forall>vba. extract_macros W vba = Inr (pre @ s # post)) \<longrightarrow>
      snd (process_file W su)
        = snd (process_file (W\<lparr>extract_macros := \<lambda>vba. Inr (pre @ post)\<rparr>) su))"
proof (intro conjI impI)
  assume "blank_stream W su s"
  then show "parse_stream W su s =
      (stream_banner W s @ [Print ''(empty macro)''], Inr (Some Empty_macro))"
    by (simp add: parse_stream_empty blank_stream_def)
next
  assume a: "extract_macros W vba = Inr streams
       \<and> list_all (\<lambda>s. blank_stream W su s \<or> stream_parses W su s) streams"
  then have "snd (serial_loop W su [] streams) = Inr (Some ([] @ stream_results W su streams))"
    using serial_loop_results by blast
  then show "snd (parse_streams W su vba) = Inr (Some (stream_results W su streams))"
    using a by (simp add: parse_streams_def parse_streams_serial_def)
  show "length (stream_results W su streams) = length streams"
    using a stream_results_length by blast
  show "compiled_modules (stream_results W su streams) = stream_modules W su streams"
    by (rule compiled_stream_results)
next
  assume a: "new_vm W = None \<and> vba_parser W = Inr vba \<and> detect_vba_macros W vba = Inr True
       \<and> extract_macros W vba = Inr streams
       \<and> list_all (\<lambda>s. blank_stream W su s \<or> stream_parses W su s) streams
       \<and> list_all (\<lambda>m. add_compiled_module W m = None) (stream_modules W su streams)
       \<and> snd (read_doc_vars W) = None \<and> snd (read_custom_doc_props W) = None
       \<and> snd (read_doc_text W) = None \<and> extract_form_strings W = None
       \<and> trace W (stream_modules W su streams) = Inr actions
       \<and> dump_actions W actions = Inr table"
  let ?ms = "stream_results W su streams"
  have "snd (serial_loop W su [] streams) = Inr (Some ([] @ ?ms))"
    using a serial_loop_results by blast
  then have p: "snd (parse_streams W su vba) = Inr (Some ?ms)"
    using a by (simp add: parse_streams_def parse_streams_serial_def)
  have c: "compiled_modules ?ms = stream_modules W su streams"
    by (rule compiled_stream_results)
  have "add_modules W ?ms = None"
    using a c add_modules_none [of W ?ms] by simp
  then have d: "document_read W su vba ?ms"
    using a p by (simp add: document_read_def modules_added_def streams_parsed_def)
  have "process_file W su =
           (file_banner W @ read_output W su vba
              @ [Print (replicate 79 (CHR ''-'')),
                 Print ''TRACING VBA CODE (entrypoint = Auto*):'',
                 Print ''Recorded Actions:'', Print table, Print []],
            Inr (Some actions))"
    using a c by (intro process_file_emulated [OF _ d]) simp_all
  then show "snd (process_file W su) = Inr (Some actions)" by simp
next
  assume a: "blank_stream W su s \<and> (\<forall>vba. extract_macros W vba = Inr (pre @ s # post))"
  let ?W' = "W\<lparr>extract_macros := \<lambda>vba. Inr (pre @ post)\<rparr>"
  have e: "snd (parse_stream W su s) = Inr (Some Empty_macro)"
    using a by (simp add: parse_stream_empty blank_stream_def)
  have "\<And>vba. compiled_result (snd (parse_streams ?W' su vba))
               = compiled_result (snd (parse_streams W su vba))"
    using a serial_loop_skip_empty [OF e, of "[]" pre post]
    by (simp add: parse_streams_def parse_streams_serial_def serial_loop_extract_indep)
  then have "snd (process_file ?W' su) = snd (process_file W su)"
    by (rule process_file_compiled)
  then show "snd (process_file W su) = snd (process_file ?W' su)" by simp
qed

theorem empty_stream_skipped_witness:
  "blank_stream blank_stream_doc False (''doc'', ''Macros/D'', ''D.bas'', '' '')
   \<and> snd (parse_stream blank_stream_doc False (''doc'', ''Macros/D'', ''D.bas'', '' ''))
       = Inr (Some Empty_macro)
   \<and> extract_macros blank_stream_doc () =
       Inr [(''doc'', ''Macros/A'', ''A.bas'', ''good''), (''doc'', ''Macros/D'', ''D.bas'', '' ''),
            (''doc'', ''Macros/C'', ''C.bas'', ''fine'')]
   \<and> snd (parse_streams blank_stream_doc False ())
       = Inr (Some [Module (''good'' @ [CHR 0x0A]), Empty_macro, Module (''fine'' @ [CHR 0x0A])])
   \<and> stream_modules blank_stream_doc False
        [(''doc'', ''Macros/A'', ''A.bas'', ''good''), (''doc'', ''Macros/D'', ''D.bas'', '' ''),
         (''doc'', ''Macros/C'', ''C.bas'', ''fine'')]
       = [''good'' @ [CHR 0x0A], ''fine'' @ [CHR 0x0A]]
   \<and> trace blank_stream_doc [''good'' @ [CHR 0x0A], ''fine'' @ [CHR 0x0A]]
       = Inr [''good'' @ [CHR 0x0A], ''fine'' @ [CHR 0x0A]]
   \<and> snd (process_file blank_stream_doc False)
       = Inr (Some [''good'' @ [CHR 0x0A], ''fine'' @ [CHR 0x0A]])
   \<and> snd (process_file (blank_stream_doc\<lparr>extract_macros := \<lambda>vba. Inr
           ([(''doc'', ''Macros/A'', ''A.bas'', ''good'')]
            @ [(''doc'', ''Macros/C'', ''C.bas'', ''fine'')])\<rparr>) False)
       = Inr (Some [''good'' @ [CHR 0x0A], ''fine'' @ [CHR 0x0A]])"
proof -
  let ?A = "(''doc'', ''Macros/A'', ''A.bas'', ''good'')"
  let ?D = "(''doc'', ''Macros/D'', ''D.bas'', '' '')"
  let ?C = "(''doc'', ''Macros/C'', ''C.bas'', ''fine'')"
  let ?W = blank_stream_doc
  let ?acts = "[''good'' @ [CHR 0x0A], ''fine'' @ [CHR 0x0A]]"
  note t = empty_stream_skipped [of ?W False ?D "()" "[?A, ?D, ?C]" ?acts "''(table)''" "[?A]" "[?C]"]
  have h1: "blank_stream ?W False ?D" by code_simp
  have h2: "extract_macros ?W () = Inr [?A, ?D, ?C]" by code_simp
  have h2': "\<forall>vba. extract_macros ?W vba = Inr ([?A] @ ?D # [?C])"
    by (simp add: blank_stream_doc_def example_doc_def)
  have h3: "list_all (\<lambda>s. blank_stream ?W False s \<or> stream_parses ?W False s) [?A, ?D, ?C]"
    by code_simp
  have h4: "stream_modules ?W False [?A, ?D, ?C] = ?acts" by code_simp
  have h5: "list_all (\<lambda>m. add_compiled_module ?W m = None) (stream_modules ?W False [?A, ?D, ?C])"
    by code_simp
  have h6: "new_vm ?W = None \<and> vba_parser ?W = Inr () \<and> detect_vba_macros ?W () = Inr True
     \<and> snd (read_doc_vars ?W) = None \<and> snd (read_custom_doc_props ?W) = None
     \<and> snd (read_doc_text ?W) = None \<and> extract_form_strings ?W = None"
    by code_simp
  have h7: "trace ?W ?acts = Inr ?acts" by code_simp
  have h7': "trace ?W (stream_modules ?W False [?A, ?D, ?C]) = Inr ?acts"
    unfolding h4 by (rule h7)
  have h8: "dump_actions ?W ?acts = Inr ''(table)''" by code_simp
  have v: "stream_results ?W False [?A, ?D, ?C]
       = [Module (''good'' @ [CHR 0x0A]), Empty_macro, Module (''fine'' @ [CHR 0x0A])]"
    by code_simp
  have c1: "snd (parse_stream ?W False ?D) = Inr (Some Empty_macro)"
    using t h1 by simp
  have "snd (parse_streams ?W False ()) = Inr (Some (stream_results ?W False [?A, ?D, ?C]))"
    using t h2 h3 by blast
  then have c2: "snd (parse_streams ?W False ())
       = Inr (Some [Module (''good'' @ [CHR 0x0A]), Empty_macro, Module (''fine'' @ [CHR 0x0A])])"
    unfolding v .
  have c3: "snd (process_file ?W False) = Inr (Some ?acts)"
    using t h2 h3 h5 h6 h7' h8 by blast
  have "snd (process_file ?W False)
      = snd (process_file (?W\<lparr>extract_macros := \<lambda>vba. Inr ([?A] @ [?C])\<rparr>) False)"
    using t h1 h2' by blast
  then have c4: "snd (process_file (?W\<lparr>extract_macros := \<lambda>vba. Inr ([?A] @ [?C])\<rparr>) False)
      = Inr (Some ?acts)"
    using c3 by simp
  show ?thesis using h1 c1 h2 c2 h4 h7 c3 c4 by blast
qed


section \<open>Exceptions in \<^verbatim>\<open>process_file\<close>\<close>

lemma body_parse_raises:
  assumes "vba_parser W = Inr vba" and "detect_vba_macros W vba = Inr True"
      and "snd (parse_streams W su vba) = Inl e"
  shows "process_file_body W su = (metadata_log W @ fst (parse_streams W su vba), Inl e)"
proof -
  obtain out2 where p: "parse_streams W su vba = (out2, Inl e)"
    using assms(3) by (cases "parse_streams W su vba") simp
  show ?thesis using assms(1,2) p
    by (simp add: process_file_body_def metadata_log_def Let_def)
qed

text \<open>The result of the body is a function of the results of its steps.\<close>

lemma body_result_cong:
  assumes v: "vba_parser W' = vba_parser W"
      and d: "detect_vba_macros W' = detect_vba_macros W"
      and p: "\<And>vba. snd (parse_streams W' su vba) = snd (parse_streams W su vba)"
      and a: "\<And>ms. add_modules W' ms = add_modules W ms"
      and r3: "snd (read_doc_vars W') = snd (read_doc_vars W)"
      and r4: "snd (read_custom_doc_props W') = snd (read_custom_doc_props W)"
      and r5: "snd (read_doc_text W') = snd (read_doc_text W)"
      and f: "extract_form_strings W' = extract_form_strings W"
      and t: "trace W' = trace W"
      and u: "dump_actions W' = dump_actions W"
  shows "snd (process_file_body W' su) = snd (process_file_body W su)"
proof (cases "vba_parser W")
  case (Inl e)
  then show ?thesis using v by (simp add: process_file_body_def)
next
  case (Inr vba)
  show ?thesis
  proof (cases "detect_vba_macros W vba")
    case (Inl e)
    then show ?thesis using Inr v d by (simp add: process_file_body_def)
  next
    case dt: (Inr b)
    show ?thesis
    proof (cases b)
      case False
      then show ?thesis using Inr dt v d by (simp add: process_file_body_def)
    next
      case True
      obtain o1 r1 where p1: "parse_streams W su vba = (o1, r1)"
        by (cases "parse_streams W su vba")
      obtain o2 r2 where p2: "parse_streams W' su vba = (o2, r2)"
        by (cases "parse_streams W' su vba")
      have rel: "r2 = r1" using p [of vba] p1 p2 by simp
      show ?thesis
      proof (cases r1)
        case (Inl e)
        then show ?thesis using rel Inr dt True p1 p2 v d
          by (simp add: process_file_body_def Let_def)
      next
        case r: (Inr mo)
        show ?thesis
        proof (cases mo)
          case None
          then show ?thesis using rel r Inr dt True p1 p2 v d
            by (simp add: process_file_body_def Let_def)
        next
          case (Some ms)
          obtain a3 b3 where q3: "read_doc_vars W = (a3, b3)" by (cases "read_doc_vars W")
          obtain a3' where q3': "read_doc_vars W' = (a3', b3)"
            using r3 q3 by (cases "read_doc_vars W'") simp
          obtain a4 b4 where q4: "read_custom_doc_props W = (a4, b4)"
            by (cases "read_custom_doc_props W")
          obtain a4' where q4': "read_custom_doc_props W' = (a4', b4)"
            using r4 q4 by (cases "read_custom_doc_props W'") simp
          obtain a5 b5 where q5: "read_doc_text W = (a5, b5)" by (cases "read_doc_text W")
          obtain a5' where q5': "read_doc_text W' = (a5', b5)"
            using r5 q5 by (cases "read_doc_text W'") simp
          note facts = Some rel r Inr dt True p1 p2 v d a f t u q3 q3' q4 q4' q5 q5'
          show ?thesis
          proof (cases "add_modules W ms")
            case am: (Some e)
            then show ?thesis using facts by (simp add: process_file_body_def Let_def)
          next
            case am: None
            show ?thesis
            proof (cases b3)
              case x: (Some e)
              then show ?thesis using facts am by (simp add: process_file_body_def Let_def)
            next
              case x3: None
              show ?thesis
              proof (cases b4)
                case x: (Some e)
                then show ?thesis using facts am x3
                  by (simp add: process_file_body_def Let_def)
              next
                case x4: None
                show ?thesis
                proof (cases b5)
                  case x: (Some e)
                  then show ?thesis using facts am x3 x4
                    by (simp add: process_file_body_def Let_def)
                next
                  case x5: None
                  show ?thesis
                  proof (cases "extract_form_strings W")
                    case x: (Some e)
                    then show ?thesis using facts am x3 x4 x5
                      by (simp add: process_file_body_def Let_def)
                  next
                    case x6: None
                    show ?thesis
                    proof (cases "trace W (compiled_modules ms)")
                      case x: (Inl e)
                      then show ?thesis using facts am x3 x4 x5 x6
                        by (simp add: process_file_body_def Let_def)
                    next
                      case x7: (Inr actions)
                      show ?thesis
                      proof (cases "dump_actions W actions")
                        case x: (Inl e)
                        then show ?thesis using facts am x3 x4 x5 x6 x7
                          by (simp add: process_file_body_def Let_def)
                      next
                        case x: (Inr table)
                        then show ?thesis using facts am x3 x4 x5 x6 x7
                          by (simp add: process_file_body_def Let_def)
                      qed
                    qed
                  qed
                qed
              qed
            qed
          qed
        qed
      qed
    qed
  qed
qed

lemma process_file_result_cong:
  assumes "new_vm W' = new_vm W"
      and "snd (process_file_body W' su) = snd (process_file_body W su)"
  shows "snd (process_file W' su) = snd (process_file W su)"
proof -
  obtain o1 r1 where p1: "process_file_body W su = (o1, r1)"
    by (cases "process_file_body W su")
  obtain o2 r2 where p2: "process_file_body W' su = (o2, r2)"
    by (cases "process_file_body W' su")
  have "r2 = r1" using assms(2) p1 p2 by simp
  then show ?thesis using assms(1) p1 p2
    by (simp add: process_file_def split: sum.splits option.splits)
qed

lemma metadata_swallowed:
  "snd (process_file (W\<lparr>get_metadata := x\<rparr>) su) = snd (process_file W su)"
proof -
  let ?W' = "W\<lparr>get_metadata := x\<rparr>"
  have ps: "parse_stream ?W' su s = parse_stream W su s" for s
    by (simp add: parse_stream_def normalized_code_def stream_banner_def Let_def)
  have sl: "serial_loop ?W' su r ss = serial_loop W su r ss" for r ss
    by (induction ss arbitrary: r) (simp_all add: ps)
  have p: "parse_streams ?W' su vba = parse_streams W su vba" for vba
    by (simp add: parse_streams_def parse_streams_serial_def sl split: sum.splits)
  have am: "add_modules ?W' ms = add_modules W ms" for ms
    by (induction ms rule: compiled_modules.induct) (simp_all split: option.splits)
  have r: "read_doc_vars ?W' = read_doc_vars W"
      "read_custom_doc_props ?W' = read_custom_doc_props W"
      "read_doc_text ?W' = read_doc_text W"
    by (simp_all add: read_doc_vars_def read_custom_doc_props_def read_doc_text_def
        split: option.splits)
  have "snd (process_file_body ?W' su) = snd (process_file_body W su)"
    by (rule body_result_cong) (simp_all add: p am r)
  then show ?thesis by (intro process_file_result_cong) simp_all
qed

lemma doc_vars_swallowed:
  assumes "ole_doc_vars W = Some e" and "is_exception e"
  shows "snd (process_file (W\<lparr>ole_doc_vars := None\<rparr>) su) = snd (process_file W su)"
proof -
  let ?W' = "W\<lparr>ole_doc_vars := None\<rparr>"
  have ps: "parse_stream ?W' su s = parse_stream W su s" for s
    by (simp add: parse_stream_def normalized_code_def stream_banner_def Let_def)
  have sl: "serial_loop ?W' su r ss = serial_loop W su r ss" for r ss
    by (induction ss arbitrary: r) (simp_all add: ps)
  have p: "parse_streams ?W' su vba = parse_streams W su vba" for vba
    by (simp add: parse_streams_def parse_streams_serial_def sl split: sum.splits)
  have am: "add_modules ?W' ms = add_modules W ms" for ms
    by (induction ms rule: compiled_modules.induct) (simp_all split: option.splits)
  have r: "snd (read_doc_vars ?W') = snd (read_doc_vars W)"
      "read_custom_doc_props ?W' = read_custom_doc_props W"
      "read_doc_text ?W' = read_doc_text W"
    using assms
    by (simp_all add: read_doc_vars_def read_custom_doc_props_def read_doc_text_def
        split: option.splits)
  have "snd (process_file_body ?W' su) = snd (process_file_body W su)"
    by (rule body_result_cong) (simp_all add: p am r)
  then show ?thesis by (intro process_file_result_cong) simp_all
qed

lemma custom_doc_props_swallowed:
  assumes "ole_custom_doc_props W = Some e" and "is_exception e"
  shows "snd (process_file (W\<lparr>ole_custom_doc_props := None\<rparr>) su) = snd (process_file W su)"
proof -
  let ?W' = "W\<lparr>ole_custom_doc_props := None\<rparr>"
  have ps: "parse_stream ?W' su s = parse_stream W su s" for s
    by (simp add: parse_stream_def normalized_code_def stream_banner_def Let_def)
  have sl: "serial_loop ?W' su r ss = serial_loop W su r ss" for r ss
    by (induction ss arbitrary: r) (simp_all add: ps)
  have p: "parse_streams ?W' su vba = parse_streams W su vba" for vba
    by (simp add: parse_streams_def parse_streams_serial_def sl split: sum.splits)
  have am: "add_modules ?W' ms = add_modules W ms" for ms
    by (induction ms rule: compiled_modules.induct) (simp_all split: option.splits)
  have r: "read_doc_vars ?W' = read_doc_vars W"
      "snd (read_custom_doc_props ?W') = snd (read_custom_doc_props W)"
      "read_doc_text ?W' = read_doc_text W"
    using assms
    by (simp_all add: read_doc_vars_def read_custom_doc_props_def read_doc_text_def
        split: option.splits)
  have "snd (process_file_body ?W' su) = snd (process_file_body W su)"
    by (rule body_result_cong) (simp_all add: p am r)
  then show ?thesis by (intro process_file_result_cong) simp_all
qed

lemma doc_text_swallowed:
  assumes "open_doc_text W = Some e" and "is_exception e"
  shows "snd (process_file (W\<lparr>open_doc_text := None\<rparr>) su) = snd (process_file W su)"
proof -
  let ?W' = "W\<lparr>open_doc_text := None\<rparr>"
  have ps: "parse_stream ?W' su s = parse_stream W su s" for s
    by (simp add: parse_stream_def normalized_code_def stream_banner_def Let_def)
  have sl: "serial_loop ?W' su r ss = serial_loop W su r ss" for r ss
    by (induction ss arbitrary: r) (simp_all add: ps)
  have p: "parse_streams ?W' su vba = parse_streams W su vba" for vba
    by (simp add: parse_streams_def parse_streams_serial_def sl split: sum.splits)
  have am: "add_modules ?W' ms = add_modules W ms" for ms
    by (induction ms rule: compiled_modules.induct) (simp_all split: option.splits)
  have r: "read_doc_vars ?W' = read_doc_vars W"
      "read_custom_doc_props ?W' = read_custom_doc_props W"
      "snd (read_doc_text ?W') = snd (read_doc_text W)"
    using assms
    by (simp_all add: read_doc_vars_def read_custom_doc_props_def read_doc_text_def
        split: option.splits)
  have "snd (process_file_body ?W' su) = snd (process_file_body W su)"
    by (rule body_result_cong) (simp_all add: p am r)
  then show ?thesis by (intro process_file_result_cong) simp_all
qed

lemma process_file_escapes:
  assumes "snd (process_file W su) = Inl e"
  shows "\<not> is_exception e \<or> new_vm W = Some e"
proof (cases "new_vm W")
  case (Some e')
  then show ?thesis using assms by (simp add: process_file_def)
next
  case None
  obtain out res where b: "process_file_body W su = (out, res)"
    by (cases "process_file_body W su")
  show ?thesis using assms None b
    by (cases res) (auto simp: process_file_def split: if_splits)
qed

text \<open>
  C6, amended.  An exception leaves \<^verbatim>\<open>process_file\<close> only if it is no instance of
  \<^verbatim>\<open>Exception\<close> or was raised by \<^verbatim>\<open>ViperMonkey()\<close>, before the \<^verbatim>\<open>try\<close>.  When an instance
  of \<^verbatim>\<open>Exception\<close> leaves the statements of the \<^verbatim>\<open>try\<close>, the function returns \<^verbatim>\<open>None\<close>, and
  prints the stack trace unless the text of the exception holds \<^verbatim>\<open>SystemExit\<close>; an
  exception that is no instance of \<^verbatim>\<open>Exception\<close> goes on to the caller.  The exceptions
  that leave the statements of the \<^verbatim>\<open>try\<close> are those of \<^verbatim>\<open>VBA_Parser\<close>,
  \<^verbatim>\<open>detect_vba_macros\<close>, \<^verbatim>\<open>extract_macros\<close>, the parser (other than a \<^verbatim>\<open>ParseException\<close>),
  \<^verbatim>\<open>add_compiled_module\<close>, the loop over the form strings (whose handler logs, prints the
  stack trace and raises again), \<^verbatim>\<open>vm.trace\<close> and \<^verbatim>\<open>vm.dump_actions\<close>, and those of the
  three readers of the document that are no instance of \<^verbatim>\<open>Exception\<close>.  An exception of
  any class raised while the metadata is read is logged and the function goes on as if
  the metadata had been read; an instance of \<^verbatim>\<open>Exception\<close> raised in one of the three
  readers is logged by the reader and the function goes on.  When the file has no macros
  the function returns the empty list.
\<close>

theorem process_file_exception_handling:
  "(snd (process_file W su) = Inl e \<longrightarrow> \<not> is_exception e \<or> new_vm W = Some e)
   \<and> (new_vm W = Some e \<longrightarrow> process_file W su = (file_banner W, Inl e))
   \<and> (new_vm W = None \<and> snd (process_file_body W su) = Inl e \<and> is_exception e \<longrightarrow>
        process_file W su =
          (file_banner W @ fst (process_file_body W su)
             @ (if py_in ''SystemExit'' (exn_str e) then [] else [Traceback e]),
           Inr None))
   \<and> (new_vm W = None \<and> snd (process_file_body W su) = Inl e \<and> \<not> is_exception e \<longrightarrow>
        process_file W su = (file_banner W @ fst (process_file_body W su), Inl e))
   \<and> (vba_parser W = Inl e \<longrightarrow> process_file_body W su = ([], Inl e))
   \<and> (vba_parser W = Inr vba \<and> detect_vba_macros W vba = Inl e \<longrightarrow>
        process_file_body W su = ([], Inl e))
   \<and> (extract_macros W vba = Inl e \<longrightarrow> parse_streams W su vba = ([], Inl e))
   \<and> (\<not> blank_stream W su s
        \<and> parse_module W (normalized_code W su (snd (snd (snd s))) @ [CHR 0x0A]) = ParseRaises e \<longrightarrow>
        snd (parse_stream W su s) = Inl e)
   \<and> (vba_parser W = Inr vba \<and> detect_vba_macros W vba = Inr True
        \<and> snd (parse_streams W su vba) = Inl e \<longrightarrow>
        process_file_body W su = (metadata_log W @ fst (parse_streams W su vba), Inl e))
   \<and> (streams_parsed W su vba ms \<and> add_modules W ms = Some e \<longrightarrow>
        process_file_body W su = (metadata_log W @ fst (parse_streams W su vba), Inl e))
   \<and> (modules_added W su vba ms
        \<and> (snd (read_doc_vars W) = Some e
            \<or> snd (read_doc_vars W) = None \<and> snd (read_custom_doc_props W) = Some e
            \<or> snd (read_doc_vars W) = None \<and> snd (read_custom_doc_props W) = None
                \<and> snd (read_doc_text W) = Some e) \<longrightarrow>
        snd (process_file_body W su) = Inl e)
   \<and> (document_read W su vba ms \<and> extract_form_strings W = Some e \<longrightarrow>
        process_file_body W su =
          (read_output W su vba
             @ (if is_exception e
                then [LogError (''Cannot read form strings. '' @ exn_str e), Traceback e]
                else []),
           Inl e))
   \<and> (document_read W su vba ms \<and> extract_form_strings W = None
        \<and> trace W (compiled_modules ms) = Inl e \<longrightarrow>
        process_file_body W su =
          (read_output W su vba
             @ [Print (replicate 79 (CHR ''-'')), Print ''TRACING VBA CODE (entrypoint = Auto*):''],
           Inl e))
   \<and> (document_read W su vba ms \<and> extract_form_strings W = None
        \<and> trace W (compiled_modules ms) = Inr actions \<and> dump_actions W actions = Inl e \<longrightarrow>
        process_file_body W su =
          (read_output W su vba
             @ [Print (replicate 79 (CHR ''-'')), Print ''TRACING VBA CODE (entrypoint = Auto*):'',
                Print ''Recorded Actions:''],
           Inl e))
   \<and> (get_metadata W = Some e \<longrightarrow>
        metadata_log W = [LogError ''Reading in metadata failed.'']
        \<and> snd (process_file W su) = snd (process_file (W\<lparr>get_metadata := None\<rparr>) su))
   \<and> (ole_doc_vars W = Some e \<longrightarrow>
        read_doc_vars W =
          (if is_exception e
           then ([LogError (''Cannot read document variables. '' @ exn_str e)], None)
           else ([], Some e))
        \<and> (is_exception e \<longrightarrow>
             snd (process_file W su) = snd (process_file (W\<lparr>ole_doc_vars := None\<rparr>) su)))
   \<and> (ole_custom_doc_props W = Some e \<longrightarrow>
        read_custom_doc_props W =
          (if is_exception e
           then ([LogError (''Cannot read custom doc properties. '' @ exn_str e)], None)
           else ([], Some e))
        \<and> (is_exception e \<longrightarrow>
             snd (process_file W su)
               = snd (process_file (W\<lparr>ole_custom_doc_props := None\<rparr>) su)))
   \<and> (open_doc_text W = Some e \<longrightarrow>
        read_doc_text W =
          (if is_exception e
           then ([LogError (''Cannot read document text from '' @ filename W @ ''. '' @ exn_str e)],
                 None)
           else ([], Some e))
        \<and> (is_exception e \<longrightarrow>
             snd (process_file W su) = snd (process_file (W\<lparr>open_doc_text := None\<rparr>) su)))
   \<and> (new_vm W = None \<and> vba_parser W = Inr vba \<and> detect_vba_macros W vba = Inr False \<longrightarrow>
        process_file W su =
          (file_banner W @ [Print ''No VBA macros found.'', Print []], Inr (Some [])))"
proof -
  have c1: "snd (process_file W su) = Inl e \<longrightarrow> \<not> is_exception e \<or> new_vm W = Some e"
    using process_file_escapes [where W=W and su=su and e=e] by blast
  have c2: "new_vm W = Some e \<longrightarrow> process_file W su = (file_banner W, Inl e)"
    by (simp add: process_file_def)
  have c3: "new_vm W = None \<and> snd (process_file_body W su) = Inl e \<and> is_exception e \<longrightarrow>
        process_file W su =
          (file_banner W @ fst (process_file_body W su)
             @ (if py_in ''SystemExit'' (exn_str e) then [] else [Traceback e]),
           Inr None)"
    by (cases "process_file_body W su") (simp add: process_file_def)
  have c4: "new_vm W = None \<and> snd (process_file_body W su) = Inl e \<and> \<not> is_exception e \<longrightarrow>
        process_file W su = (file_banner W @ fst (process_file_body W su), Inl e)"
    by (cases "process_file_body W su") (simp add: process_file_def)
  have c5: "vba_parser W = Inl e \<longrightarrow> process_file_body W su = ([], Inl e)"
    by (simp add: process_file_body_def)
  have c6: "vba_parser W = Inr vba \<and> detect_vba_macros W vba = Inl e \<longrightarrow>
        process_file_body W su = ([], Inl e)"
    by (simp add: process_file_body_def)
  have c7: "extract_macros W vba = Inl e \<longrightarrow> parse_streams W su vba = ([], Inl e)"
    by (simp add: parse_streams_def parse_streams_serial_def)
  have c8: "\<not> blank_stream W su s
        \<and> parse_module W (normalized_code W su (snd (snd (snd s))) @ [CHR 0x0A]) = ParseRaises e \<longrightarrow>
        snd (parse_stream W su s) = Inl e"
    by (simp add: parse_stream_def blank_stream_def Let_def)
  have c9: "vba_parser W = Inr vba \<and> detect_vba_macros W vba = Inr True
        \<and> snd (parse_streams W su vba) = Inl e \<longrightarrow>
        process_file_body W su = (metadata_log W @ fst (parse_streams W su vba), Inl e)"
    using body_parse_raises [where W=W and su=su and e=e and vba=vba] by blast
  have c10: "streams_parsed W su vba ms \<and> add_modules W ms = Some e \<longrightarrow>
        process_file_body W su = (metadata_log W @ fst (parse_streams W su vba), Inl e)"
    using body_add_raises [where W=W and su=su and e=e and vba=vba and ms=ms] by blast
  have c11: "modules_added W su vba ms
        \<and> (snd (read_doc_vars W) = Some e
            \<or> snd (read_doc_vars W) = None \<and> snd (read_custom_doc_props W) = Some e
            \<or> snd (read_doc_vars W) = None \<and> snd (read_custom_doc_props W) = None
                \<and> snd (read_doc_text W) = Some e) \<longrightarrow>
        snd (process_file_body W su) = Inl e"
    using body_reader_raises [of W su vba ms e] by blast
  have c12: "document_read W su vba ms \<and> extract_form_strings W = Some e \<longrightarrow>
        process_file_body W su =
          (read_output W su vba
             @ (if is_exception e
                then [LogError (''Cannot read form strings. '' @ exn_str e), Traceback e]
                else []),
           Inl e)"
    using body_form_strings_raise [where W=W and su=su and e=e and vba=vba and ms=ms] by blast
  have c13: "document_read W su vba ms \<and> extract_form_strings W = None
        \<and> trace W (compiled_modules ms) = Inl e \<longrightarrow>
        process_file_body W su =
          (read_output W su vba
             @ [Print (replicate 79 (CHR ''-'')), Print ''TRACING VBA CODE (entrypoint = Auto*):''],
           Inl e)"
  proof
    assume a: "document_read W su vba ms \<and> extract_form_strings W = None
        \<and> trace W (compiled_modules ms) = Inl e"
    then show "process_file_body W su =
          (read_output W su vba
             @ [Print (replicate 79 (CHR ''-'')), Print ''TRACING VBA CODE (entrypoint = Auto*):''],
           Inl e)"
      using body_emulate [of W su vba ms] by simp
  qed
  have c14: "document_read W su vba ms \<and> extract_form_strings W = None
        \<and> trace W (compiled_modules ms) = Inr actions \<and> dump_actions W actions = Inl e \<longrightarrow>
        process_file_body W su =
          (read_output W su vba
             @ [Print (replicate 79 (CHR ''-'')), Print ''TRACING VBA CODE (entrypoint = Auto*):'',
                Print ''Recorded Actions:''],
           Inl e)"
  proof
    assume a: "document_read W su vba ms \<and> extract_form_strings W = None
        \<and> trace W (compiled_modules ms) = Inr actions \<and> dump_actions W actions = Inl e"
    then show "process_file_body W su =
          (read_output W su vba
             @ [Print (replicate 79 (CHR ''-'')), Print ''TRACING VBA CODE (entrypoint = Auto*):'',
                Print ''Recorded Actions:''],
           Inl e)"
      using body_emulate [of W su vba ms] by simp
  qed
  have c15: "get_metadata W = Some e \<longrightarrow>
        metadata_log W = [LogError ''Reading in metadata failed.'']
        \<and> snd (process_file W su) = snd (process_file (W\<lparr>get_metadata := None\<rparr>) su)"
    using metadata_swallowed [where W=W and x=None and su=su] by (simp add: metadata_log_def)
  have c16: "ole_doc_vars W = Some e \<longrightarrow>
        read_doc_vars W =
          (if is_exception e
           then ([LogError (''Cannot read document variables. '' @ exn_str e)], None)
           else ([], Some e))
        \<and> (is_exception e \<longrightarrow>
             snd (process_file W su) = snd (process_file (W\<lparr>ole_doc_vars := None\<rparr>) su))"
    using doc_vars_swallowed [where W=W and e=e and su=su] by (simp add: read_doc_vars_def)
  have c17: "ole_custom_doc_props W = Some e \<longrightarrow>
        read_custom_doc_props W =
          (if is_exception e
           then ([LogError (''Cannot read custom doc properties. '' @ exn_str e)], None)
           else ([], Some e))
        \<and> (is_exception e \<longrightarrow>
             snd (process_file W su)
               = snd (process_file (W\<lparr>ole_custom_doc_props := None\<rparr>) su))"
    using custom_doc_props_swallowed [where W=W and e=e and su=su] by (simp add: read_custom_doc_props_def)
  have c18: "open_doc_text W = Some e \<longrightarrow>
        read_doc_text W =
          (if is_exception e
           then ([LogError (''Cannot read document text from '' @ filename W @ ''. '' @ exn_str e)],
                 None)
           else ([], Some e))
        \<and> (is_exception e \<longrightarrow>
             snd (process_file W su) = snd (process_file (W\<lparr>open_doc_text := None\<rparr>) su))"
    using doc_text_swallowed [where W=W and e=e and su=su] by (simp add: read_doc_text_def)
  have c19: "new_vm W = None \<and> vba_parser W = Inr vba \<and> detect_vba_macros W vba = Inr False \<longrightarrow>
        process_file W su =
          (file_banner W @ [Print ''No VBA macros found.'', Print []], Inr (Some []))"
    by (simp add: process_file_def process_file_body_def)
  show ?thesis
    by (intro conjI) (rule c1 c2 c3 c4 c5 c6 c7 c8 c9 c10 c11 c12 c13 c14 c15 c16 c17 c18 c19)+
qed

theorem process_file_exception_handling_witness:
  "process_file (example_doc\<lparr>vba_parser := Inl (Exn True ''boom'')\<rparr>) False
     = ([Print (replicate 79 (CHR ''='')), Print ''FILE: doc'', Traceback (Exn True ''boom'')],
        Inr None)
   \<and> add_modules (blank_stream_doc\<lparr>add_compiled_module := \<lambda>m. Some (Exn True ''bad module'')\<rparr>)
        [Module (''good'' @ [CHR 0x0A]), Empty_macro, Module (''fine'' @ [CHR 0x0A])]
       = Some (Exn True ''bad module'')
   \<and> snd (process_file
             (blank_stream_doc\<lparr>add_compiled_module := \<lambda>m. Some (Exn True ''bad module'')\<rparr>) False)
       = Inr None
   \<and> Print ''TRACING VBA CODE (entrypoint = Auto*):''
       \<notin> set (fst (process_file
             (blank_stream_doc\<lparr>add_compiled_module := \<lambda>m. Some (Exn True ''bad module'')\<rparr>) False))
   \<and> get_metadata (blank_stream_doc\<lparr>get_metadata := Some (Exn False ''KeyboardInterrupt'')\<rparr>)
       = Some (Exn False ''KeyboardInterrupt'')
   \<and> snd (process_file
             (blank_stream_doc\<lparr>get_metadata := Some (Exn False ''KeyboardInterrupt'')\<rparr>) False)
       = Inr (Some [''good'' @ [CHR 0x0A], ''fine'' @ [CHR 0x0A]])
   \<and> trace (blank_stream_doc\<lparr>trace := \<lambda>ms. Inl (Exn False ''KeyboardInterrupt'')\<rparr>)
        (compiled_modules [Module (''good'' @ [CHR 0x0A]), Empty_macro, Module (''fine'' @ [CHR 0x0A])])
       = Inl (Exn False ''KeyboardInterrupt'')
   \<and> snd (process_file (blank_stream_doc\<lparr>trace := \<lambda>ms. Inl (Exn False ''KeyboardInterrupt'')\<rparr>)
             False)
       = Inl (Exn False ''KeyboardInterrupt'')
   \<and> process_file (example_doc\<lparr>detect_vba_macros := \<lambda>v. Inr False\<rparr>) False
       = ([Print (replicate 79 (CHR ''='')), Print ''FILE: doc'',
           Print ''No VBA macros found.'', Print []],
          Inr (Some []))"
proof -
  let ?boom = "Exn True ''boom''"
  let ?bad = "Exn True ''bad module''"
  let ?ki = "Exn False ''KeyboardInterrupt''"
  let ?ms = "[Module (''good'' @ [CHR 0x0A]), Empty_macro, Module (''fine'' @ [CHR 0x0A])]"
  let ?Wa = "example_doc\<lparr>vba_parser := Inl ?boom\<rparr>"
  let ?Wb = "blank_stream_doc\<lparr>add_compiled_module := \<lambda>m. Some ?bad\<rparr>"
  let ?Wc = "blank_stream_doc\<lparr>get_metadata := Some ?ki\<rparr>"
  let ?Wd = "example_doc\<lparr>detect_vba_macros := \<lambda>v. Inr False\<rparr>"
  let ?We = "blank_stream_doc\<lparr>trace := \<lambda>ms. Inl ?ki\<rparr>"
  note ta = process_file_exception_handling [where W="?Wa" and su=False and e="?boom"]
  note tb = process_file_exception_handling
    [where W="?Wb" and su=False and e="?bad" and vba="()" and ms="?ms"]
  note tc = process_file_exception_handling [where W="?Wc" and su=False and e="?ki"]
  note td = process_file_exception_handling [where W="?Wd" and su=False and vba="()"]
  note te = process_file_exception_handling
    [where W="?We" and su=False and e="?ki" and vba="()" and ms="?ms"]

  have a1: "new_vm ?Wa = None \<and> vba_parser ?Wa = Inl ?boom \<and> is_exception ?boom" by code_simp
  have a2: "process_file_body ?Wa False = ([], Inl ?boom)"
    using ta [THEN conjunct2, THEN conjunct2, THEN conjunct2, THEN conjunct2, THEN conjunct1]
          a1 by blast
  have a3: "file_banner ?Wa @ [] @ (if py_in ''SystemExit'' (exn_str ?boom) then []
              else [Traceback ?boom])
            = [Print (replicate 79 (CHR ''='')), Print ''FILE: doc'', Traceback ?boom]"
    by code_simp
  have "process_file ?Wa False =
          (file_banner ?Wa @ fst (process_file_body ?Wa False)
             @ (if py_in ''SystemExit'' (exn_str ?boom) then [] else [Traceback ?boom]),
           Inr None)"
    using ta [THEN conjunct2, THEN conjunct2, THEN conjunct1]
          a1 a2 snd_conv [of "[] :: out_item list" "Inl ?boom :: exn + string list option"]
    by metis
  then have ca: "process_file ?Wa False
      = ([Print (replicate 79 (CHR ''='')), Print ''FILE: doc'', Traceback ?boom], Inr None)"
    unfolding a2 fst_conv a3 .

  have b1: "new_vm ?Wb = None \<and> is_exception ?bad \<and> streams_parsed ?Wb False () ?ms"
    by code_simp
  have b2: "add_modules ?Wb ?ms = Some ?bad" by code_simp
  have b3: "process_file_body ?Wb False
      = (metadata_log ?Wb @ fst (parse_streams ?Wb False ()), Inl ?bad)"
    using tb [THEN conjunct2, THEN conjunct2, THEN conjunct2, THEN conjunct2, THEN conjunct2,
            THEN conjunct2, THEN conjunct2, THEN conjunct2, THEN conjunct2, THEN conjunct1]
          b1 b2 by blast
  have b4: "Print ''TRACING VBA CODE (entrypoint = Auto*):''
      \<notin> set (file_banner ?Wb @ (metadata_log ?Wb @ fst (parse_streams ?Wb False ()))
               @ (if py_in ''SystemExit'' (exn_str ?bad) then [] else [Traceback ?bad]))"
    by code_simp
  have b5: "process_file ?Wb False =
          (file_banner ?Wb @ fst (process_file_body ?Wb False)
             @ (if py_in ''SystemExit'' (exn_str ?bad) then [] else [Traceback ?bad]),
           Inr None)"
    using tb [THEN conjunct2, THEN conjunct2, THEN conjunct1] b1 b3 snd_conv by metis
  have cb1: "snd (process_file ?Wb False) = Inr None" unfolding b5 by (rule snd_conv)
  have cb2: "Print ''TRACING VBA CODE (entrypoint = Auto*):''
      \<notin> set (fst (process_file ?Wb False))"
    unfolding b5 b3 fst_conv by (rule b4)

  have c1: "get_metadata ?Wc = Some ?ki" by code_simp
  have c2: "snd (process_file (?Wc\<lparr>get_metadata := None\<rparr>) False)
      = Inr (Some [''good'' @ [CHR 0x0A], ''fine'' @ [CHR 0x0A]])"
    by code_simp
  have "snd (process_file ?Wc False) = snd (process_file (?Wc\<lparr>get_metadata := None\<rparr>) False)"
    using tc [THEN conjunct2, THEN conjunct2, THEN conjunct2, THEN conjunct2, THEN conjunct2,
            THEN conjunct2, THEN conjunct2, THEN conjunct2, THEN conjunct2, THEN conjunct2,
            THEN conjunct2, THEN conjunct2, THEN conjunct2, THEN conjunct2, THEN conjunct1]
          c1 by blast
  then have cc: "snd (process_file ?Wc False)
      = Inr (Some [''good'' @ [CHR 0x0A], ''fine'' @ [CHR 0x0A]])"
    unfolding c2 .

  have d1: "new_vm ?Wd = None \<and> vba_parser ?Wd = Inr () \<and> detect_vba_macros ?Wd () = Inr False"
    by code_simp
  have d2: "file_banner ?Wd @ [Print ''No VBA macros found.'', Print []]
      = [Print (replicate 79 (CHR ''='')), Print ''FILE: doc'',
         Print ''No VBA macros found.'', Print []]"
    by code_simp
  have "process_file ?Wd False =
          (file_banner ?Wd @ [Print ''No VBA macros found.'', Print []], Inr (Some []))"
    using td [THEN conjunct2, THEN conjunct2, THEN conjunct2, THEN conjunct2, THEN conjunct2,
            THEN conjunct2, THEN conjunct2, THEN conjunct2, THEN conjunct2, THEN conjunct2,
            THEN conjunct2, THEN conjunct2, THEN conjunct2, THEN conjunct2, THEN conjunct2,
            THEN conjunct2, THEN conjunct2, THEN conjunct2]
          d1 by blast
  then have cd: "process_file ?Wd False
      = ([Print (replicate 79 (CHR ''='')), Print ''FILE: doc'',
          Print ''No VBA macros found.'', Print []], Inr (Some []))"
    unfolding d2 .

  have e1: "new_vm ?We = None \<and> \<not> is_exception ?ki \<and> document_read ?We False () ?ms
      \<and> extract_form_strings ?We = None"
    by code_simp
  have e2: "trace ?We (compiled_modules ?ms) = Inl ?ki" by code_simp
  have e3: "process_file_body ?We False =
          (read_output ?We False ()
             @ [Print (replicate 79 (CHR ''-'')), Print ''TRACING VBA CODE (entrypoint = Auto*):''],
           Inl ?ki)"
    using te [THEN conjunct2, THEN conjunct2, THEN conjunct2, THEN conjunct2, THEN conjunct2,
            THEN conjunct2, THEN conjunct2, THEN conjunct2, THEN conjunct2, THEN conjunct2,
            THEN conjunct2, THEN conjunct2, THEN conjunct1]
          e1 e2 by blast
  have "process_file ?We False
      = (file_banner ?We @ fst (process_file_body ?We False), Inl ?ki)"
    using te [THEN conjunct2, THEN conjunct2, THEN conjunct2, THEN conjunct1]
          e1 e3 snd_conv by metis
  then have ce: "snd (process_file ?We False) = Inl ?ki" by (simp only: snd_conv)

  show ?thesis using ca b2 cb1 cb2 c1 cc e2 ce cd by (intro conjI)
qed

text \<open>
  C6 as stated fails: a \<^verbatim>\<open>KeyboardInterrupt\<close> raised while the file is opened is not caught
  by \<^verbatim>\<open>except Exception\<close> and leaves \<^verbatim>\<open>process_file\<close>; for an exception whose text holds
  \<^verbatim>\<open>SystemExit\<close> the function returns \<^verbatim>\<open>None\<close> without printing a stack trace; and an
  error while the metadata or the document variables are read is logged without a stack
  trace, after which the document is processed to its end and its actions are returned.
\<close>

theorem process_file_exception_counterexample:
  "process_file (example_doc\<lparr>vba_parser := Inl (Exn False ''KeyboardInterrupt'')\<rparr>) False
     = ([Print (replicate 79 (CHR ''='')), Print ''FILE: doc''],
        Inl (Exn False ''KeyboardInterrupt''))
   \<and> process_file (example_doc\<lparr>vba_parser := Inl (Exn True ''SystemExit'')\<rparr>) False
     = ([Print (replicate 79 (CHR ''='')), Print ''FILE: doc''], Inr None)
   \<and> snd (process_file (blank_stream_doc\<lparr>get_metadata := Some (Exn True ''not an OLE file'')\<rparr>)
            False)
     = Inr (Some [''good'' @ [CHR 0x0A], ''fine'' @ [CHR 0x0A]])
   \<and> LogError ''Reading in metadata failed.''
       \<in> set (fst (process_file
                    (blank_stream_doc\<lparr>get_metadata := Some (Exn True ''not an OLE file'')\<rparr>) False))
   \<and> Traceback (Exn True ''not an OLE file'')
       \<notin> set (fst (process_file
                    (blank_stream_doc\<lparr>get_metadata := Some (Exn True ''not an OLE file'')\<rparr>) False))
   \<and> snd (process_file (blank_stream_doc\<lparr>ole_doc_vars := Some (Exn True ''no 1Table'')\<rparr>) False)
     = Inr (Some [''good'' @ [CHR 0x0A], ''fine'' @ [CHR 0x0A]])
   \<and> Traceback (Exn True ''no 1Table'')
       \<notin> set (fst (process_file
                    (blank_stream_doc\<lparr>ole_doc_vars := Some (Exn True ''no 1Table'')\<rparr>) False))"
  by code_simp


section \<open>Lines and text\<close>

lemma py_split_snoc_sep: "py_split c (s @ [c]) = py_split c s @ [[]]"
proof (induction s)
  case Nil
  show ?case by simp
next
  case (Cons x s)
  show ?case
  proof (cases "py_split c s")
    case Nil
    then show ?thesis using py_split_nonempty by blast
  next
    case (Cons l ls)
    then show ?thesis using Cons.IH by simp
  qed
qed

lemma py_split_line: "c \<notin> set l \<Longrightarrow> py_split c (l @ c # s) = l # py_split c s"
  by (induction l) auto

lemma py_split_no_sep: "l \<in> set (py_split c s) \<Longrightarrow> c \<notin> set l"
proof (induction s arbitrary: l)
  case Nil
  then show ?case by simp
next
  case (Cons x s)
  show ?case
  proof (cases "py_split c s")
    case Nil
    then show ?thesis using py_split_nonempty by blast
  next
    case p: (Cons l' ls)
    show ?thesis
    proof (cases "x = c")
      case True
      then show ?thesis using Cons by auto
    next
      case False
      then have "l = x # l' \<or> l \<in> set ls" using Cons.prems p by simp
      moreover have "c \<notin> set l'" using Cons.IH [of l'] p by simp
      moreover have "l \<in> set ls \<Longrightarrow> c \<notin> set l" using Cons.IH [of l] p by simp
      ultimately show ?thesis using False by auto
    qed
  qed
qed

lemma py_lines_unlines:
  "\<forall>l \<in> set ls. CHR 0x0A \<notin> set l \<Longrightarrow> py_lines (py_unlines ls) = ls @ [[]]"
proof (induction ls)
  case Nil
  show ?case by (simp add: py_lines_def py_unlines_def)
next
  case (Cons l ls)
  then have "py_split (CHR 0x0A) (concat (map (\<lambda>l. l @ [CHR 0x0A]) ls)) = ls @ [[]]"
    by (simp add: py_lines_def py_unlines_def)
  then show ?case using Cons.prems py_split_line [of "CHR 0x0A" l]
    by (simp add: py_lines_def py_unlines_def)
qed

lemma py_unlines_lines: "py_unlines (py_lines s) = s @ [CHR 0x0A]"
proof (induction s)
  case Nil
  show ?case by (simp add: py_lines_def py_unlines_def)
next
  case (Cons x s)
  show ?case
  proof (cases "py_split (CHR 0x0A) s")
    case Nil
    then show ?thesis using py_split_nonempty by blast
  next
    case p: (Cons l ls)
    then show ?thesis using Cons.IH by (auto simp: py_lines_def py_unlines_def)
  qed
qed

lemma py_unlines_append: "py_unlines (xs @ ys) = py_unlines xs @ py_unlines ys"
  by (simp add: py_unlines_def)

lemma py_lines_snoc_nl: "py_lines (s @ [CHR 0x0A]) = py_lines s @ [[]]"
  by (simp add: py_lines_def py_split_snoc_sep)


section \<open>The normalizer applied twice\<close>

lemma plain_not_commented:
  assumes "\<forall>l \<in> set ls. \<not> py_in ''='' l"
  shows "comment_lines ls = {}"
proof -
  have "n \<notin> comment_lines ls" for n
  proof
    assume a: "n \<in> comment_lines ls"
    then have b: "1 \<le> n \<and> n \<le> length ls
       \<and> assigned_vars (ls ! (n - 1)) (external_funcs (scan_lines (take n ls))) \<noteq> []"
      by (rule comment_lines_assigned)
    then have "n - 1 < length ls" by arith
    then have "ls ! (n - 1) \<in> set ls" by (rule nth_mem)
    then have "\<not> py_in ''='' (ls ! (n - 1))" using assms by blast
    then show False using b no_eq_no_assign by blast
  qed
  then show ?thesis by blast
qed

lemma rewrite_loop_plain:
  "\<forall>l \<in> set ls. plain_line l \<Longrightarrow> rewrite_loop {} n ic ls = ls"
proof (induction ls arbitrary: n ic)
  case Nil
  show ?case by simp
next
  case (Cons l ls)
  have p: "plain_line l" using Cons.prems by simp
  then have "fix_application_run l = l" by (simp add: plain_line_def fix_application_run_def)
  then have "fst (rewrite_step {} (n + 1) ic l) = [l]"
    using p by (simp add: plain_line_def rewrite_step_def Let_def)
  then show ?case using Cons by simp
qed

lemma collapse_loop_plain:
  "\<forall>l \<in> set ls. \<not> startswith (py_strip l) ''#If'' \<Longrightarrow> collapse_loop None ls = ls"
  by (induction ls) simp_all

lemma plain_empty: "plain_line []"
  by (simp add: plain_line_def is_useless_call_def is_useless_dim_def py_strip_def
      startswith_def endswith_def)

lemma strip_plain:
  assumes "\<forall>l \<in> set (py_lines x). plain_line l"
  shows "strip_useless_code x = x @ [CHR 0x0A, CHR 0x0A]"
proof -
  let ?ls = "py_lines x"
  have "\<forall>l \<in> set ?ls. \<not> py_in ''='' l" using assms by (simp add: plain_line_def)
  then have c: "comment_lines ?ls = {}" by (rule plain_not_commented)
  have r: "rewrite_loop {} 0 0 ?ls = ?ls" using assms by (rule rewrite_loop_plain)
  have n: "\<forall>l \<in> set ?ls. CHR 0x0A \<notin> set l"
    using py_split_no_sep by (auto simp: py_lines_def)
  have l2: "py_lines (py_unlines ?ls) = ?ls @ [[]]" using n by (rule py_lines_unlines)
  have "\<forall>l \<in> set (?ls @ [[]]). \<not> startswith (py_strip l) ''#If''"
    using assms plain_empty by (auto simp: plain_line_def)
  then have "collapse_loop None (?ls @ [[]]) = ?ls @ [[]]" by (rule collapse_loop_plain)
  then have "strip_useless_code x = py_unlines (?ls @ [[]])"
    using c r l2 by (simp add: strip_useless_code_def collapse_macro_if_blocks_def Let_def)
  also have "\<dots> = py_unlines ?ls @ [CHR 0x0A]"
    by (simp add: py_unlines_append) (simp add: py_unlines_def)
  also have "\<dots> = x @ [CHR 0x0A, CHR 0x0A]" by (simp add: py_unlines_lines)
  finally show ?thesis .
qed

text \<open>
  C2, amended.  The normalizer is not idempotent.  On a text none of whose lines is touched
  by a rule (no \<^verbatim>\<open>=\<close>, no useless call or \<^verbatim>\<open>Dim\<close>, not starting with \<^verbatim>\<open>End If\<close>,
  \<^verbatim>\<open>Application.Run\<close> or \<^verbatim>\<open>#If\<close>, not ending with \<^verbatim>\<open>End Function\<close>)
  \<^verbatim>\<open>strip_useless_code\<close> returns the text followed by two newline characters, and applied
  to that result it returns the text followed by four.
\<close>

theorem normalizer_appends_newlines:
  "(\<forall>l \<in> set (py_lines x). plain_line l) \<longrightarrow>
     strip_useless_code x = x @ [CHR 0x0A, CHR 0x0A]
     \<and> strip_useless_code (strip_useless_code x) = x @ [CHR 0x0A, CHR 0x0A, CHR 0x0A, CHR 0x0A]"
proof
  assume a: "\<forall>l \<in> set (py_lines x). plain_line l"
  then have 1: "strip_useless_code x = x @ [CHR 0x0A, CHR 0x0A]" by (rule strip_plain)
  have "py_lines (x @ [CHR 0x0A, CHR 0x0A]) = py_lines x @ [[], []]"
    using py_lines_snoc_nl [of "x @ [CHR 0x0A]"] py_lines_snoc_nl [of x] by simp
  then have "\<forall>l \<in> set (py_lines (x @ [CHR 0x0A, CHR 0x0A])). plain_line l"
    using a plain_empty by auto
  then have "strip_useless_code (x @ [CHR 0x0A, CHR 0x0A])
      = (x @ [CHR 0x0A, CHR 0x0A]) @ [CHR 0x0A, CHR 0x0A]"
    by (rule strip_plain)
  then show "strip_useless_code x = x @ [CHR 0x0A, CHR 0x0A]
     \<and> strip_useless_code (strip_useless_code x) = x @ [CHR 0x0A, CHR 0x0A, CHR 0x0A, CHR 0x0A]"
    using 1 by simp
qed

theorem normalizer_appends_newlines_witness:
  "py_lines ''MsgBox 1'' = [''MsgBox 1''] \<and> plain_line ''MsgBox 1''
   \<and> strip_useless_code ''MsgBox 1'' = ''MsgBox 1'' @ [CHR 0x0A, CHR 0x0A]
   \<and> strip_useless_code (strip_useless_code ''MsgBox 1'')
       = ''MsgBox 1'' @ [CHR 0x0A, CHR 0x0A, CHR 0x0A, CHR 0x0A]"
proof -
  have l: "py_lines ''MsgBox 1'' = [''MsgBox 1'']" by code_simp
  have p: "plain_line ''MsgBox 1''" by code_simp
  have "\<forall>l \<in> set (py_lines ''MsgBox 1''). plain_line l" using l p by simp
  then have "strip_useless_code ''MsgBox 1'' = ''MsgBox 1'' @ [CHR 0x0A, CHR 0x0A]
     \<and> strip_useless_code (strip_useless_code ''MsgBox 1'')
         = ''MsgBox 1'' @ [CHR 0x0A, CHR 0x0A, CHR 0x0A, CHR 0x0A]"
    using normalizer_appends_newlines [of "''MsgBox 1''"] by blast
  then show ?thesis using l p by blast
qed

text \<open>
  C2 as stated fails: the text \<^verbatim>\<open>a\<close> is normalized to \<^verbatim>\<open>a\<close> and two newlines; normalizing
  that gives \<^verbatim>\<open>a\<close> and four newlines.
\<close>

theorem normalizer_not_idempotent:
  "strip_useless_code ''a'' = ''a'' @ [CHR 0x0A, CHR 0x0A]
   \<and> strip_useless_code (strip_useless_code ''a'') = ''a'' @ [CHR 0x0A, CHR 0x0A, CHR 0x0A, CHR 0x0A]
   \<and> strip_useless_code (strip_useless_code ''a'') \<noteq> strip_useless_code ''a''"
  by code_simp


section \<open>Where the lines of the output come from\<close>

lemma py_replace_subset: "set (py_replace old [] s) \<subseteq> set s"
proof (induction old "[] :: string" s rule: py_replace.induct)
  case (1 old)
  show ?case by simp
next
  case (2 old c cs)
  show ?case
  proof (cases "old \<noteq> [] \<and> startswith (c # cs) old")
    case True
    then have "set (py_replace old [] (drop (length old) (c # cs)))
                 \<subseteq> set (drop (length old) (c # cs))"
      using 2 by blast
    moreover have "set (drop (length old) (c # cs)) \<subseteq> set (c # cs)" by (rule set_drop_subset)
    ultimately show ?thesis using True by auto
  next
    case False
    then have "set (py_replace old [] cs) \<subseteq> set cs" using 2 by blast
    then show ?thesis using False by auto
  qed
qed

lemma fix_application_run_no_newline:
  "CHR 0x0A \<notin> set l \<Longrightarrow> CHR 0x0A \<notin> set (fix_application_run l)"
proof -
  assume a: "CHR 0x0A \<notin> set l"
  let ?core = "py_replace ''Application.Run'' [] (py_replace [CHR 0x22] [] l)"
  have "set ?core \<subseteq> set l" using py_replace_subset by blast
  then have "CHR 0x0A \<notin> set ?core" using a by blast
  then have "CHR 0x0A \<notin> set (''WScript.Shell '' @ ?core)" by simp
  then show ?thesis using a \<open>CHR 0x0A \<notin> set ?core\<close>
    by (simp add: fix_application_run_def Let_def)
qed

lemma rewrite_step_emitted:
  "set (fst (rewrite_step cl n ic l)) \<subseteq> emitted_lines [l]"
  by (auto simp: rewrite_step_def Let_def emitted_lines_def)

lemma emitted_lines_mono: "set xs \<subseteq> set ys \<Longrightarrow> emitted_lines xs \<subseteq> emitted_lines ys"
  by (auto simp: emitted_lines_def)

lemma rewrite_loop_emitted: "set (rewrite_loop cl n ic ls) \<subseteq> emitted_lines ls"
proof (induction ls arbitrary: n ic)
  case Nil
  show ?case by simp
next
  case (Cons l ls)
  have 1: "set (fst (rewrite_step cl (n + 1) ic l)) \<subseteq> emitted_lines (l # ls)"
    using rewrite_step_emitted [of cl "n + 1" ic l] emitted_lines_mono [of "[l]" "l # ls"] by auto
  have 2: "set (rewrite_loop cl (n + 1) (snd (rewrite_step cl (n + 1) ic l)) ls)
             \<subseteq> emitted_lines (l # ls)"
  proof -
    have "set ls \<subseteq> set (l # ls)" by auto
    then have "emitted_lines ls \<subseteq> emitted_lines (l # ls)" by (rule emitted_lines_mono)
    then show ?thesis
      using Cons.IH [of "n + 1" "snd (rewrite_step cl (n + 1) ic l)"] by (rule order_trans [rotated])
  qed
  show ?case using 1 2 by simp
qed

lemma emitted_no_newline:
  assumes "\<forall>l \<in> set ls. CHR 0x0A \<notin> set l" and "e \<in> emitted_lines ls"
  shows "CHR 0x0A \<notin> set e"
proof -
  have "e = ''End Function'' \<or> (\<exists>l \<in> set ls. e = fix_application_run l)
        \<or> (\<exists>l \<in> set ls. e = py_replace ''End Function'' [] l)"
    using assms(2) by (auto simp: emitted_lines_def)
  then show ?thesis
  proof (elim disjE bexE)
    assume "e = ''End Function''"
    then show ?thesis by simp
  next
    fix l assume "l \<in> set ls" "e = fix_application_run l"
    then show ?thesis using assms(1) fix_application_run_no_newline by blast
  next
    fix l assume "l \<in> set ls" "e = py_replace ''End Function'' [] l"
    then show ?thesis using assms(1) py_replace_subset by blast
  qed
qed

lemma biggest_block_mem: "biggest_block best blocks \<in> insert best (set blocks)"
  by (induction best blocks rule: biggest_block.induct) auto

lemma collapse_loop_subset:
  "set (collapse_loop st ls) \<subseteq>
     set ls \<union> (case st of None \<Rightarrow> {}
                | Some (blocks, block) \<Rightarrow> \<Union> (set ` set blocks) \<union> set block)"
proof (induction st ls rule: collapse_loop.induct)
  case (1 st)
  show ?case by simp
next
  case (2 line rest)
  then show ?case by auto
next
  case (3 curr_blocks curr_block line rest)
  let ?s = "py_strip line"
  show ?case
  proof (cases "startswith ?s ''#Else'' \<or> startswith ?s ''Else''")
    case True
    then show ?thesis using 3(1) by (auto simp: Let_def)
  next
    case False
    show ?thesis
    proof (cases "startswith ?s ''#End''")
      case True
      have "biggest_block [] (curr_blocks @ [curr_block])
              \<in> insert [] (set (curr_blocks @ [curr_block]))"
        by (rule biggest_block_mem)
      then have b: "set (biggest_block [] (curr_blocks @ [curr_block]))
              \<subseteq> \<Union> (set ` set curr_blocks) \<union> set curr_block"
        by auto
      have "set (collapse_loop None rest) \<subseteq> set rest" using 3(2) False True by simp
      then show ?thesis using False True b by (auto simp: Let_def)
    next
      case e: False
      have "set (collapse_loop (Some (curr_blocks, curr_block @ [line])) rest)
              \<subseteq> set rest \<union> (\<Union> (set ` set curr_blocks) \<union> set (curr_block @ [line]))"
        using 3(3) False e by simp
      then show ?thesis using False e by (auto simp: Let_def)
    qed
  qed
qed

text \<open>
  C5, amended.  Every line of the text \<^verbatim>\<open>strip_useless_code\<close> returns is a line of the input
  as it stands there, string literals included, unless it is an empty line, the line
  \<^verbatim>\<open>End Function\<close>, the product of the \<^verbatim>\<open>Application.Run\<close> repair (which deletes the
  quotes of a literal), or an input line ending with \<^verbatim>\<open>End Function\<close> from which every
  \<^verbatim>\<open>End Function\<close> has been deleted.
\<close>

theorem output_lines_from_input:
  "\<forall>l \<in> set (py_lines (strip_useless_code vba_code)).
     l = [] \<or> l = ''End Function'' \<or> l \<in> set (py_lines vba_code)
     \<or> (\<exists>l0 \<in> set (py_lines vba_code).
           (startswith (py_strip l0) ''Application.Run'' \<and> py_count (CHR 0x22) l0 = 2
              \<and> endswith (py_strip l0) [CHR 0x22] \<and> l = fix_application_run l0)
           \<or> (endswith l0 ''End Function'' \<and> l = py_replace ''End Function'' [] l0))"
proof
  fix l
  let ?ls = "py_lines vba_code"
  let ?R = "rewrite_loop (comment_lines ?ls) 0 0 ?ls"
  let ?E = "collapse_loop None (py_lines (py_unlines ?R))"
  assume a: "l \<in> set (py_lines (strip_useless_code vba_code))"
  have n: "\<forall>l \<in> set ?ls. CHR 0x0A \<notin> set l"
    using py_split_no_sep by (auto simp: py_lines_def)
  have r: "set ?R \<subseteq> emitted_lines ?ls" by (rule rewrite_loop_emitted)
  then have rn: "\<forall>e \<in> set ?R. CHR 0x0A \<notin> set e" using n emitted_no_newline by blast
  then have l1: "py_lines (py_unlines ?R) = ?R @ [[]]" by (rule py_lines_unlines)
  have "set ?E \<subseteq> set (py_lines (py_unlines ?R))"
    using collapse_loop_subset [of None "py_lines (py_unlines ?R)"] by simp
  then have e: "set ?E \<subseteq> insert [] (set ?R)" using l1 by auto
  then have "\<forall>e \<in> set ?E. CHR 0x0A \<notin> set e" using rn by auto
  then have "py_lines (py_unlines ?E) = ?E @ [[]]" by (rule py_lines_unlines)
  then have "py_lines (strip_useless_code vba_code) = ?E @ [[]]"
    by (simp add: strip_useless_code_def collapse_macro_if_blocks_def Let_def)
  then have "l \<in> insert [] (set ?R)" using a e by auto
  then have "l = [] \<or> l \<in> emitted_lines ?ls" using r by auto
  then have d: "l = [] \<or> l = ''End Function''
     \<or> (\<exists>l0 \<in> set ?ls. l = fix_application_run l0)
     \<or> (\<exists>l0 \<in> set ?ls. endswith l0 ''End Function'' \<and> l = py_replace ''End Function'' [] l0)"
    by (auto simp: emitted_lines_def)
  have f: "fix_application_run l0 = l0
     \<or> (startswith (py_strip l0) ''Application.Run'' \<and> py_count (CHR 0x22) l0 = 2
          \<and> endswith (py_strip l0) [CHR 0x22])" for l0
    by (simp add: fix_application_run_def)
  show "l = [] \<or> l = ''End Function'' \<or> l \<in> set ?ls
     \<or> (\<exists>l0 \<in> set ?ls.
           (startswith (py_strip l0) ''Application.Run'' \<and> py_count (CHR 0x22) l0 = 2
              \<and> endswith (py_strip l0) [CHR 0x22] \<and> l = fix_application_run l0)
           \<or> (endswith l0 ''End Function'' \<and> l = py_replace ''End Function'' [] l0))"
  proof -
    { assume "\<exists>l0 \<in> set ?ls. l = fix_application_run l0"
      then obtain l0 where l0: "l0 \<in> set ?ls" "l = fix_application_run l0" by blast
      have ?thesis
      proof (cases "fix_application_run l0 = l0")
        case True
        then show ?thesis using l0 by simp
      next
        case False
        then have "startswith (py_strip l0) ''Application.Run'' \<and> py_count (CHR 0x22) l0 = 2
          \<and> endswith (py_strip l0) [CHR 0x22]" using f by blast
        then show ?thesis using l0 by blast
      qed }
    then show ?thesis using d by blast
  qed
qed

theorem output_lines_from_input_witness:
  "''MsgBox '' @ [CHR 0x22] @ ''hi'' @ [CHR 0x22]
     \<in> set (py_lines (strip_useless_code (''MsgBox '' @ [CHR 0x22] @ ''hi'' @ [CHR 0x22])))
   \<and> (''MsgBox '' @ [CHR 0x22] @ ''hi'' @ [CHR 0x22] = []
      \<or> ''MsgBox '' @ [CHR 0x22] @ ''hi'' @ [CHR 0x22] = ''End Function''
      \<or> ''MsgBox '' @ [CHR 0x22] @ ''hi'' @ [CHR 0x22]
          \<in> set (py_lines (''MsgBox '' @ [CHR 0x22] @ ''hi'' @ [CHR 0x22]))
      \<or> (\<exists>l0 \<in> set (py_lines (''MsgBox '' @ [CHR 0x22] @ ''hi'' @ [CHR 0x22])).
           (startswith (py_strip l0) ''Application.Run'' \<and> py_count (CHR 0x22) l0 = 2
              \<and> endswith (py_strip l0) [CHR 0x22]
              \<and> ''MsgBox '' @ [CHR 0x22] @ ''hi'' @ [CHR 0x22] = fix_application_run l0)
           \<or> (endswith l0 ''End Function''
              \<and> ''MsgBox '' @ [CHR 0x22] @ ''hi'' @ [CHR 0x22] = py_replace ''End Function'' [] l0)))"
proof -
  let ?c = "''MsgBox '' @ [CHR 0x22] @ ''hi'' @ [CHR 0x22]"
  have out: "py_lines (strip_useless_code ?c) = [?c, [], []]" by code_simp
  have m: "?c \<in> set (py_lines (strip_useless_code ?c))"
    unfolding out by (rule list.set_intros(1))
  show ?thesis using bspec [OF output_lines_from_input [of ?c] m] m by (rule conjI [rotated])
qed

text \<open>
  C5 as stated fails: the line \<^verbatim>\<open>Application.Run "a, b"\<close> is kept, as
  \<^verbatim>\<open>WScript.Shell  a, b\<close>, and its string literal \<^verbatim>\<open>"a, b"\<close> is not in the output.
\<close>

theorem application_run_literal_lost:
  "py_in ([CHR 0x22] @ ''a, b'' @ [CHR 0x22]) (''Application.Run '' @ [CHR 0x22] @ ''a, b'' @ [CHR 0x22])
   \<and> strip_useless_code (''Application.Run '' @ [CHR 0x22] @ ''a, b'' @ [CHR 0x22])
       = ''WScript.Shell  a, b'' @ [CHR 0x0A, CHR 0x0A]
   \<and> \<not> py_in ([CHR 0x22] @ ''a, b'' @ [CHR 0x22])
         (strip_useless_code (''Application.Run '' @ [CHR 0x22] @ ''a, b'' @ [CHR 0x22]))"
  by code_simp


section \<open>The arm that \<^verbatim>\<open>collapse_macro_if_blocks\<close> keeps\<close>

lemma end_not_else: "end_marker line \<Longrightarrow> \<not> else_marker line"
proof -
  assume "end_marker line"
  then have "startswith (py_strip line) ''#End''" by (simp add: end_marker_def)
  from startswith_append [OF this] obtain t where "py_strip line = ''#End'' @ t" by blast
  then show ?thesis by (cases t) (simp_all add: else_marker_def startswith_def)
qed

lemma collapse_loop_arm:
  "\<forall>l \<in> set arm. \<not> else_marker l \<and> \<not> end_marker l \<Longrightarrow>
     collapse_loop (Some (blocks, block)) (arm @ rest)
       = collapse_loop (Some (blocks, block @ arm)) rest"
proof (induction arm arbitrary: block)
  case Nil
  show ?case by simp
next
  case (Cons l arm)
  have "\<not> else_marker l \<and> \<not> end_marker l" using Cons.prems by simp
  then have "collapse_loop (Some (blocks, block)) ((l # arm) @ rest)
     = collapse_loop (Some (blocks, block @ [l])) (arm @ rest)"
    by (simp add: else_marker_def end_marker_def Let_def)
  also have "\<dots> = collapse_loop (Some (blocks, (block @ [l]) @ arm)) rest"
    using Cons.IH [of "block @ [l]"] Cons.prems by simp
  finally show ?case by simp
qed

lemma collapse_loop_block:
  assumes "\<forall>(m, a) \<in> set others. else_marker m"
      and "\<forall>l \<in> set arm. \<not> else_marker l \<and> \<not> end_marker l"
      and "\<forall>a \<in> set (map snd others). \<forall>l \<in> set a. \<not> else_marker l \<and> \<not> end_marker l"
      and "end_marker e"
  shows "collapse_loop (Some (blocks, block)) (block_lines arm others @ e # post)
       = biggest_block [] (blocks @ (block @ arm) # map snd others) @ collapse_loop None post"
  using assms(1,2,3)
proof (induction others arbitrary: blocks block arm)
  case Nil
  have ne: "\<not> else_marker e" using assms(4) by (rule end_not_else)
  have "collapse_loop (Some (blocks, block)) (arm @ e # post)
      = collapse_loop (Some (blocks, block @ arm)) (e # post)"
    using Nil(2) by (rule collapse_loop_arm)
  also have "\<dots> = biggest_block [] (blocks @ [block @ arm]) @ collapse_loop None post"
    using ne assms(4) by (simp add: else_marker_def end_marker_def Let_def)
  finally show ?case by simp
next
  case (Cons p others)
  obtain m a where p: "p = (m, a)" by (cases p)
  have em: "else_marker m" using Cons.prems(1) p by simp
  have 1: "collapse_loop (Some (blocks, block)) (arm @ m # block_lines a others @ e # post)
      = collapse_loop (Some (blocks, block @ arm)) (m # block_lines a others @ e # post)"
    using Cons.prems(2) by (rule collapse_loop_arm)
  have 2: "collapse_loop (Some (blocks, block @ arm)) (m # block_lines a others @ e # post)
      = collapse_loop (Some (blocks @ [block @ arm], [])) (block_lines a others @ e # post)"
    using em by (simp add: else_marker_def Let_def)
  have 3: "collapse_loop (Some (blocks @ [block @ arm], [])) (block_lines a others @ e # post)
      = biggest_block [] ((blocks @ [block @ arm]) @ ([] @ a) # map snd others)
        @ collapse_loop None post"
    using Cons.prems p by (intro Cons.IH) auto
  show ?case using 1 2 3 p by simp
qed

lemma biggest_block_snoc:
  "biggest_block best (xs @ [x]) =
     (if length x > length (biggest_block best xs) then x else biggest_block best xs)"
  by (induction best xs rule: biggest_block.induct) simp_all

text \<open>The choice among the arms: an arm of greatest length, and the first of these.\<close>

lemma biggest_block_first_longest:
  "arms \<noteq> [] \<Longrightarrow>
     \<exists>i < length arms. biggest_block [] arms = arms ! i
        \<and> (\<forall>j < length arms. length (arms ! j) \<le> length (arms ! i))
        \<and> (\<forall>j < i. length (arms ! j) < length (arms ! i))"
proof (induction arms rule: rev_nonempty_induct)
  case (single x)
  have "biggest_block [] [x] = x" by simp
  then show ?case by simp
next
  case (snoc x xs)
  then obtain i where i: "i < length xs" "biggest_block [] xs = xs ! i"
      "\<forall>j < length xs. length (xs ! j) \<le> length (xs ! i)"
      "\<forall>j < i. length (xs ! j) < length (xs ! i)"
    by blast
  show ?case
  proof (cases "length x > length (xs ! i)")
    case True
    have "biggest_block [] (xs @ [x]) = (xs @ [x]) ! length xs"
      using True i(2) by (simp add: biggest_block_snoc)
    moreover have "\<forall>j < length (xs @ [x]). length ((xs @ [x]) ! j) \<le> length ((xs @ [x]) ! length xs)"
      using True i(3) by (auto simp: nth_append less_Suc_eq)
    moreover have "\<forall>j < length xs. length ((xs @ [x]) ! j) < length ((xs @ [x]) ! length xs)"
      using True i(3) by (auto simp: nth_append intro: le_less_trans)
    ultimately show ?thesis by (intro exI [of _ "length xs"]) simp
  next
    case False
    have "biggest_block [] (xs @ [x]) = (xs @ [x]) ! i"
      using False i(1,2) by (simp add: biggest_block_snoc nth_append)
    moreover have "\<forall>j < length (xs @ [x]). length ((xs @ [x]) ! j) \<le> length ((xs @ [x]) ! i)"
      using False i(1,3) by (auto simp: nth_append less_Suc_eq)
    moreover have "\<forall>j < i. length ((xs @ [x]) ! j) < length ((xs @ [x]) ! i)"
      using i(1,4) by (auto simp: nth_append)
    ultimately show ?thesis using i(1) by (intro exI [of _ i]) simp
  qed
qed

lemma collapse_loop_pre:
  "\<forall>l \<in> set pre. \<not> startswith (py_strip l) ''#If'' \<Longrightarrow>
     collapse_loop None (pre @ rest) = pre @ collapse_loop None rest"
  by (induction pre) simp_all

text \<open>
  Where the arms of a block are separated by lines starting with \<^verbatim>\<open>#Else\<close> and no line
  of an arm starts with \<^verbatim>\<open>#Else\<close>, \<^verbatim>\<open>Else\<close> or \<^verbatim>\<open>#End\<close>, the loop emits the lines of one
  arm as they are and drops the marker lines; the arm is one of greatest length, and the
  first of these.
\<close>

lemma collapse_first_longest_arm:
  "py_lines vba_code = pre @ h # block_lines arm others @ e # post
   \<and> (\<forall>l \<in> set pre. \<not> startswith (py_strip l) ''#If'')
   \<and> startswith (py_strip h) ''#If''
   \<and> (\<forall>(m, a) \<in> set others. startswith (py_strip m) ''#Else'')
   \<and> (\<forall>a \<in> set (arm # map snd others). \<forall>l \<in> set a. \<not> else_marker l \<and> \<not> end_marker l)
   \<and> end_marker e
   \<longrightarrow> (\<exists>i < length (arm # map snd others).
          collapse_macro_if_blocks vba_code
            = py_unlines (pre @ (arm # map snd others) ! i @ collapse_loop None post)
          \<and> (\<forall>j < length (arm # map snd others).
                length ((arm # map snd others) ! j) \<le> length ((arm # map snd others) ! i))
          \<and> (\<forall>j < i. length ((arm # map snd others) ! j) < length ((arm # map snd others) ! i)))"
proof
  let ?arms = "arm # map snd others"
  assume a: "py_lines vba_code = pre @ h # block_lines arm others @ e # post
   \<and> (\<forall>l \<in> set pre. \<not> startswith (py_strip l) ''#If'')
   \<and> startswith (py_strip h) ''#If''
   \<and> (\<forall>(m, a) \<in> set others. startswith (py_strip m) ''#Else'')
   \<and> (\<forall>a \<in> set ?arms. \<forall>l \<in> set a. \<not> else_marker l \<and> \<not> end_marker l)
   \<and> end_marker e"
  have pre: "collapse_loop None (pre @ rest) = pre @ collapse_loop None rest" for rest
    using a collapse_loop_pre by blast
  have "collapse_loop (Some ([], [])) (block_lines arm others @ e # post)
       = biggest_block [] ([] @ ([] @ arm) # map snd others) @ collapse_loop None post"
    using a by (intro collapse_loop_block) (auto simp: else_marker_def)
  then have "collapse_loop None (h # block_lines arm others @ e # post)
       = biggest_block [] ?arms @ collapse_loop None post"
    using a by simp
  then have c: "collapse_macro_if_blocks vba_code
       = py_unlines (pre @ biggest_block [] ?arms @ collapse_loop None post)"
    using a pre by (simp add: collapse_macro_if_blocks_def)
  obtain i where i: "i < length ?arms" "biggest_block [] ?arms = ?arms ! i"
      "\<forall>j < length ?arms. length (?arms ! j) \<le> length (?arms ! i)"
      "\<forall>j < i. length (?arms ! j) < length (?arms ! i)"
    using biggest_block_first_longest [of ?arms] by blast
  show "\<exists>i < length ?arms.
          collapse_macro_if_blocks vba_code = py_unlines (pre @ ?arms ! i @ collapse_loop None post)
          \<and> (\<forall>j < length ?arms. length (?arms ! j) \<le> length (?arms ! i))
          \<and> (\<forall>j < i. length (?arms ! j) < length (?arms ! i))"
    using c i by (intro exI [of _ i]) simp
qed

text \<open>
  C3.  The claim does not hold of the code, and the code misses what its own docstring
  announces (\<^verbatim>\<open>picking the largest block\<close> of an \<^verbatim>\<open>#If\<close> statement): inside a block, a
  line starting with \<^verbatim>\<open>Else\<close>, the \<^verbatim>\<open>Else\<close> of an ordinary \<^verbatim>\<open>If\<close> statement, is read as
  the start of another arm.  The block below has one arm, of five lines;
  \<^verbatim>\<open>collapse_macro_if_blocks\<close> returns the first two of them and not the arm as it stands.
\<close>

theorem collapse_splits_arm_at_else:
  "collapse_macro_if_blocks
     (''#If A Then'' @ [CHR 0x0A] @ ''If x Then'' @ [CHR 0x0A] @ ''a'' @ [CHR 0x0A]
      @ ''Else'' @ [CHR 0x0A] @ ''b'' @ [CHR 0x0A] @ ''End If'' @ [CHR 0x0A] @ ''#End If'')
   = ''If x Then'' @ [CHR 0x0A] @ ''a'' @ [CHR 0x0A]
   \<and> collapse_macro_if_blocks
     (''#If A Then'' @ [CHR 0x0A] @ ''If x Then'' @ [CHR 0x0A] @ ''a'' @ [CHR 0x0A]
      @ ''Else'' @ [CHR 0x0A] @ ''b'' @ [CHR 0x0A] @ ''End If'' @ [CHR 0x0A] @ ''#End If'')
   \<noteq> py_unlines [''If x Then'', ''a'', ''Else'', ''b'', ''End If'']"
  by code_simp

section \<open>The third loop inside \<^verbatim>\<open>strip_useless_code\<close>\<close>

text \<open>What \<^verbatim>\<open>strip_useless_code\<close> returns, seen from one line of the input.\<close>

lemma strip_at_line:
  assumes "py_lines vba_code = pre @ line # post"
      and "rewrite_step (comment_lines (py_lines vba_code)) (length pre + 1)
             (if_count_after 0 pre) line = (out, ic)"
  shows "strip_useless_code vba_code =
           collapse_macro_if_blocks (py_unlines
             (rewrite_loop (comment_lines (py_lines vba_code)) 0 0 pre @ out
              @ rewrite_loop (comment_lines (py_lines vba_code)) (length pre + 1) ic post))"
proof -
  let ?cl = "comment_lines (py_lines vba_code)"
  have "rewrite_loop ?cl 0 0 (pre @ line # post) =
          rewrite_loop ?cl 0 0 pre
          @ rewrite_loop ?cl (0 + length pre) (if_count_after 0 pre) (line # post)"
    by (rule rewrite_loop_append)
  also have "rewrite_loop ?cl (0 + length pre) (if_count_after 0 pre) (line # post) =
          out @ rewrite_loop ?cl (length pre + 1) ic post"
    using assms(2) by simp
  finally show ?thesis using assms(1) by (simp add: strip_useless_code_def Let_def)
qed

lemma py_split_subset: "l \<in> set (py_split c s) \<Longrightarrow> set l \<subseteq> set s"
proof (induction s arbitrary: l)
  case Nil
  then show ?case by simp
next
  case (Cons x s)
  show ?case
  proof (cases "py_split c s")
    case Nil
    then show ?thesis using py_split_nonempty by blast
  next
    case p: (Cons l' ls)
    show ?thesis
    proof (cases "x = c")
      case True
      then show ?thesis using Cons by auto
    next
      case False
      then have "l = x # l' \<or> l \<in> set ls" using Cons.prems p by simp
      moreover have "set l' \<subseteq> set s" using Cons.IH [of l'] p by simp
      moreover have "l \<in> set ls \<Longrightarrow> set l \<subseteq> set s" using Cons.IH [of l] p by simp
      ultimately show ?thesis by auto
    qed
  qed
qed

lemma py_strip_subset: "set (py_strip s) \<subseteq> set s"
proof
  fix x assume "x \<in> set (py_strip s)"
  then have "x \<in> set (dropWhile is_space (rev (dropWhile is_space s)))"
    by (simp add: py_strip_def)
  then have "x \<in> set (rev (dropWhile is_space s))" by (rule set_dropWhileD)
  then have "x \<in> set (dropWhile is_space s)" by simp
  then show "x \<in> set s" by (rule set_dropWhileD)
qed

lemma emitted_no_hash:
  assumes "\<forall>l \<in> set ls. CHR ''#'' \<notin> set l" and "e \<in> emitted_lines ls"
  shows "CHR ''#'' \<notin> set e"
proof -
  have "e = ''End Function'' \<or> (\<exists>l \<in> set ls. e = fix_application_run l)
        \<or> (\<exists>l \<in> set ls. e = py_replace ''End Function'' [] l)"
    using assms(2) by (auto simp: emitted_lines_def)
  then show ?thesis
  proof (elim disjE bexE)
    assume "e = ''End Function''"
    then show ?thesis by simp
  next
    fix l assume l: "l \<in> set ls" "e = fix_application_run l"
    let ?core = "py_replace ''Application.Run'' [] (py_replace [CHR 0x22] [] l)"
    have "set ?core \<subseteq> set l" using py_replace_subset by blast
    then have "CHR ''#'' \<notin> set ?core" using assms(1) l(1) by blast
    moreover have "CHR ''#'' \<notin> set l" using assms(1) l(1) by blast
    ultimately show ?thesis using l(2) by (simp add: fix_application_run_def Let_def)
  next
    fix l assume "l \<in> set ls" "e = py_replace ''End Function'' [] l"
    then show ?thesis using assms(1) py_replace_subset by blast
  qed
qed

text \<open>On a text without the character \<^verbatim>\<open>#\<close> the collapse of the conditional blocks changes
  nothing: the result is the lines of the third loop and an empty line.\<close>

lemma strip_no_hash:
  assumes "CHR ''#'' \<notin> set vba_code"
  shows "py_lines (strip_useless_code vba_code) =
           rewrite_loop (comment_lines (py_lines vba_code)) 0 0 (py_lines vba_code) @ [[], []]"
proof -
  let ?ls = "py_lines vba_code"
  let ?R = "rewrite_loop (comment_lines ?ls) 0 0 ?ls"
  have n: "\<forall>l \<in> set ?ls. CHR 0x0A \<notin> set l"
    using py_split_no_sep by (auto simp: py_lines_def)
  have h: "\<forall>l \<in> set ?ls. CHR ''#'' \<notin> set l"
    using py_split_subset assms by (fastforce simp: py_lines_def)
  have r: "set ?R \<subseteq> emitted_lines ?ls" by (rule rewrite_loop_emitted)
  have rn: "\<forall>e \<in> set ?R. CHR 0x0A \<notin> set e" using r n emitted_no_newline by blast
  have rh: "\<forall>e \<in> set ?R. CHR ''#'' \<notin> set e" using r h emitted_no_hash by blast
  have l1: "py_lines (py_unlines ?R) = ?R @ [[]]" using rn by (rule py_lines_unlines)
  have "\<not> startswith (py_strip e) ''#If''" if "e \<in> set (?R @ [[]])" for e
  proof
    assume "startswith (py_strip e) ''#If''"
    then have "py_strip e \<noteq> [] \<and> hd (py_strip e) = CHR ''#''" by (rule startswith_hd)
    then have "CHR ''#'' \<in> set (py_strip e)" using hd_in_set by metis
    then have "CHR ''#'' \<in> set e" using py_strip_subset by blast
    then show False using that rh by auto
  qed
  then have "collapse_loop None (?R @ [[]]) = ?R @ [[]]"
    by (intro collapse_loop_plain) blast
  then have s: "strip_useless_code vba_code = py_unlines (?R @ [[]])"
    using l1 by (simp add: strip_useless_code_def collapse_macro_if_blocks_def Let_def)
  have "\<forall>e \<in> set (?R @ [[]]). CHR 0x0A \<notin> set e" using rn by auto
  then have "py_lines (py_unlines (?R @ [[]])) = (?R @ [[]]) @ [[]]" by (rule py_lines_unlines)
  then show ?thesis using s by simp
qed

lemma strip_no_hash_at_line:
  assumes "CHR ''#'' \<notin> set vba_code"
      and "py_lines vba_code = pre @ line # post"
      and "rewrite_step (comment_lines (py_lines vba_code)) (length pre + 1)
             (if_count_after 0 pre) line = (out, ic)"
  shows "py_lines (strip_useless_code vba_code) =
           rewrite_loop (comment_lines (py_lines vba_code)) 0 0 pre @ out
           @ rewrite_loop (comment_lines (py_lines vba_code)) (length pre + 1) ic post @ [[], []]"
proof -
  let ?cl = "comment_lines (py_lines vba_code)"
  have "rewrite_loop ?cl 0 0 (pre @ line # post) =
          rewrite_loop ?cl 0 0 pre
          @ rewrite_loop ?cl (0 + length pre) (if_count_after 0 pre) (line # post)"
    by (rule rewrite_loop_append)
  also have "rewrite_loop ?cl (0 + length pre) (if_count_after 0 pre) (line # post) =
          out @ rewrite_loop ?cl (length pre + 1) ic post"
    using assms(3) by simp
  finally have "rewrite_loop ?cl 0 0 (py_lines vba_code) =
      rewrite_loop ?cl 0 0 pre @ out @ rewrite_loop ?cl (length pre + 1) ic post"
    using assms(2) by simp
  then show ?thesis using strip_no_hash [OF assms(1)] by simp
qed

section \<open>The unmatched \<^verbatim>\<open>End If\<close>\<close>

lemma if_not_end_if: "startswith s ''If'' \<Longrightarrow> \<not> startswith s ''End If''"
proof
  assume a: "startswith s ''If''" and b: "startswith s ''End If''"
  have "hd s = CHR ''I''" using startswith_hd [OF a] by simp
  moreover have "hd s = CHR ''E''" using startswith_hd [OF b] by simp
  ultimately show False by simp
qed

lemma if_space_if: "startswith s ''If '' \<Longrightarrow> startswith s ''If''"
  by (auto simp: startswith_def dest: arg_cong [where f = "take 2"])

text \<open>The count of the source is the number of open \<^verbatim>\<open>If\<close> statements.\<close>

lemma if_count_open_ifs:
  "if_then_space ls \<Longrightarrow> if_count_after (int k) ls = int (open_ifs k ls)"
proof (induction ls arbitrary: k)
  case Nil
  show ?case by simp
next
  case (Cons l ls)
  have sp: "\<not> startswith (py_strip l) ''If'' \<or> startswith (py_strip l) ''If ''"
    and rest: "if_then_space ls"
    using Cons.prems by (simp_all add: if_then_space_def)
  show ?case
  proof (cases "startswith (py_strip l) ''If''")
    case True
    then have i: "startswith (py_strip l) ''If ''" using sp by blast
    have e: "\<not> startswith (py_strip l) ''End If''" using True by (rule if_not_end_if)
    have "snd (rewrite_step {} 0 (int k) l) = int (k + 1)"
      using i e by (simp add: rewrite_step_def Let_def)
    then show ?thesis using True Cons.IH [OF rest, of "k + 1"] by simp
  next
    case False
    then have i: "\<not> startswith (py_strip l) ''If ''" using if_space_if by blast
    show ?thesis
    proof (cases "startswith (py_strip l) ''End If''")
      case e: True
      have "snd (rewrite_step {} 0 (int k) l) = int (k - 1)"
        using i e by (cases k) (simp_all add: rewrite_step_def Let_def)
      then show ?thesis using False e Cons.IH [OF rest, of "k - 1"] by simp
    next
      case e: False
      have "snd (rewrite_step {} 0 (int k) l) = int k"
        using i e by (simp add: rewrite_step_def Let_def)
      then show ?thesis using False e Cons.IH [OF rest, of k] by simp
    qed
  qed
qed

lemma end_if_not_dim: "startswith s ''End If'' \<Longrightarrow> \<not> startswith s ''Dim ''"
  using dim_not_end_if by blast

lemma end_if_not_app_run: "startswith s ''End If'' \<Longrightarrow> \<not> startswith s ''Application.Run''"
proof
  assume a: "startswith s ''End If''" and b: "startswith s ''Application.Run''"
  have "hd s = CHR ''E''" using startswith_hd [OF a] by simp
  moreover have "hd s = CHR ''A''" using startswith_hd [OF b] by simp
  ultimately show False by simp
qed

text \<open>The step of the loop at a line starting with \<^verbatim>\<open>End If\<close>.\<close>

lemma end_if_step_unmatched:
  assumes "startswith (py_strip line) ''End If''"
  shows "rewrite_step cl n 0 line = ([''End Function''], 0)"
proof -
  have "\<not> startswith (py_strip line) ''If ''" using assms by (rule end_if_not_if)
  then show ?thesis using assms by (simp add: rewrite_step_def Let_def)
qed

lemma end_if_step_matched:
  assumes e: "startswith (py_strip (ls ! i)) ''End If''" and i: "i < length ls"
      and p: "0 < k" and q: "\<not> py_in ''='' (ls ! i)"
      and f: "\<not> endswith (ls ! i) ''End Function''"
  shows "rewrite_step (comment_lines ls) (Suc i) (int k) (ls ! i) = ([ls ! i], int k - 1)"
proof -
  let ?l = "ls ! i"
  have 1: "\<not> startswith (py_strip ?l) ''If ''" using e by (rule end_if_not_if)
  have 2: "Suc i \<notin> comment_lines ls" using i q by (rule no_eq_not_commented)
  have 3: "\<not> is_useless_call ?l" using e by (rule end_if_not_useless_call)
  have "\<not> startswith (py_strip ?l) ''Dim ''" using e by (rule end_if_not_dim)
  then have 4: "\<not> is_useless_dim ?l" by (simp add: is_useless_dim_iff)
  have "\<not> startswith (py_strip ?l) ''Application.Run''" using e by (rule end_if_not_app_run)
  then have 5: "fix_application_run ?l = ?l" by (simp add: fix_application_run_def)
  show ?thesis using e p f 1 2 3 4 5 by (simp add: rewrite_step_def Let_def)
qed

text \<open>
  C7, amended.  The third loop of \<^verbatim>\<open>strip_useless_code\<close> keeps a count of the \<^verbatim>\<open>If\<close>
  statements that are open: a line starting with \<^verbatim>\<open>If\<close> and a space opens one, a line
  starting with \<^verbatim>\<open>End If\<close> closes one when one is open.  A line starting with \<^verbatim>\<open>End If\<close>
  met while none is open is replaced by the line \<^verbatim>\<open>End Function\<close> and the loop goes on
  with none open, so that an \<^verbatim>\<open>End If\<close> that has been replaced does not count against a
  later \<^verbatim>\<open>If\<close>; a line starting with \<^verbatim>\<open>End If\<close> met while one is open is kept (when it
  holds no \<^verbatim>\<open>=\<close> and does not end with \<^verbatim>\<open>End Function\<close>) and the loop goes on with one
  less open.  The lines before the \<^verbatim>\<open>End If\<close> are taken to have a space after every
  \<^verbatim>\<open>If\<close> they start with; nothing is said of other texts.  In the output of
  \<^verbatim>\<open>strip_useless_code\<close> the lines of the loop are followed by the collapse of the
  \<^verbatim>\<open>#If\<close> blocks, which changes nothing when the text holds no \<^verbatim>\<open>#\<close>.  The input that
  is a lone \<^verbatim>\<open>End If\<close> gives \<^verbatim>\<open>End Function\<close>.
\<close>

theorem unmatched_end_if_rewritten:
  "(py_lines vba_code = pre @ line # post \<and> if_then_space pre
      \<and> startswith (py_strip line) ''End If'' \<and> open_ifs 0 pre = 0
    \<longrightarrow> strip_useless_code vba_code =
          collapse_macro_if_blocks (py_unlines
            (rewrite_loop (comment_lines (py_lines vba_code)) 0 0 pre
             @ ''End Function''
             # rewrite_loop (comment_lines (py_lines vba_code)) (length pre + 1) 0 post))
        \<and> (CHR ''#'' \<notin> set vba_code \<longrightarrow>
             py_lines (strip_useless_code vba_code) =
               rewrite_loop (comment_lines (py_lines vba_code)) 0 0 pre
               @ ''End Function''
               # rewrite_loop (comment_lines (py_lines vba_code)) (length pre + 1) 0 post
               @ [[], []]))
   \<and> (py_lines vba_code = pre @ line # post \<and> if_then_space pre
      \<and> startswith (py_strip line) ''End If'' \<and> 0 < open_ifs 0 pre
      \<and> \<not> py_in ''='' line \<and> \<not> endswith line ''End Function''
    \<longrightarrow> strip_useless_code vba_code =
          collapse_macro_if_blocks (py_unlines
            (rewrite_loop (comment_lines (py_lines vba_code)) 0 0 pre
             @ line
             # rewrite_loop (comment_lines (py_lines vba_code)) (length pre + 1)
                 (int (open_ifs 0 pre) - 1) post))
        \<and> (CHR ''#'' \<notin> set vba_code \<longrightarrow>
             py_lines (strip_useless_code vba_code) =
               rewrite_loop (comment_lines (py_lines vba_code)) 0 0 pre
               @ line
               # rewrite_loop (comment_lines (py_lines vba_code)) (length pre + 1)
                   (int (open_ifs 0 pre) - 1) post
               @ [[], []]))
   \<and> strip_useless_code ''End If'' = ''End Function'' @ [CHR 0x0A, CHR 0x0A]"
proof (intro conjI impI)
  assume a: "py_lines vba_code = pre @ line # post \<and> if_then_space pre
      \<and> startswith (py_strip line) ''End If'' \<and> open_ifs 0 pre = 0"
  let ?cl = "comment_lines (py_lines vba_code)"
  have "if_count_after (int 0) pre = int (open_ifs 0 pre)"
    using a by (intro if_count_open_ifs) simp
  then have c: "if_count_after 0 pre = 0" using a by simp
  have st: "rewrite_step ?cl (length pre + 1) (if_count_after 0 pre) line = ([''End Function''], 0)"
    unfolding c using a by (intro end_if_step_unmatched) simp
  show "strip_useless_code vba_code =
          collapse_macro_if_blocks (py_unlines
            (rewrite_loop ?cl 0 0 pre @ ''End Function'' # rewrite_loop ?cl (length pre + 1) 0 post))"
    using strip_at_line [OF _ st] a by simp
  assume "CHR ''#'' \<notin> set vba_code"
  then show "py_lines (strip_useless_code vba_code) =
               rewrite_loop ?cl 0 0 pre @ ''End Function''
               # rewrite_loop ?cl (length pre + 1) 0 post @ [[], []]"
    using strip_no_hash_at_line [OF _ _ st] a by simp
next
  assume a: "py_lines vba_code = pre @ line # post \<and> if_then_space pre
      \<and> startswith (py_strip line) ''End If'' \<and> 0 < open_ifs 0 pre
      \<and> \<not> py_in ''='' line \<and> \<not> endswith line ''End Function''"
  let ?ls = "py_lines vba_code"
  let ?cl = "comment_lines ?ls"
  let ?k = "open_ifs 0 pre"
  have "if_count_after (int 0) pre = int ?k"
    using a by (intro if_count_open_ifs) simp
  then have c: "if_count_after 0 pre = int ?k" by simp
  have nth: "?ls ! length pre = line" using a by simp
  have len: "length pre < length ?ls" using a by simp
  have "rewrite_step ?cl (Suc (length pre)) (int ?k) (?ls ! length pre)
          = ([?ls ! length pre], int ?k - 1)"
    using a len unfolding nth [symmetric] by (intro end_if_step_matched) simp_all
  then have st: "rewrite_step ?cl (length pre + 1) (if_count_after 0 pre) line
          = ([line], int ?k - 1)"
    unfolding c nth by simp
  show "strip_useless_code vba_code =
          collapse_macro_if_blocks (py_unlines
            (rewrite_loop ?cl 0 0 pre @ line
             # rewrite_loop ?cl (length pre + 1) (int ?k - 1) post))"
    using strip_at_line [OF _ st] a by simp
  assume "CHR ''#'' \<notin> set vba_code"
  then show "py_lines (strip_useless_code vba_code) =
               rewrite_loop ?cl 0 0 pre @ line
               # rewrite_loop ?cl (length pre + 1) (int ?k - 1) post @ [[], []]"
    using strip_no_hash_at_line [OF _ _ st] a by simp
next
  show "strip_useless_code ''End If'' = ''End Function'' @ [CHR 0x0A, CHR 0x0A]"
    by code_simp
qed

theorem unmatched_end_if_rewritten_witness:
  "py_lines (''If a Then'' @ [CHR 0x0A] @ ''End If'' @ [CHR 0x0A] @ ''End If'')
     = [''If a Then'', ''End If''] @ ''End If'' # []
   \<and> if_then_space [''If a Then'', ''End If'']
   \<and> startswith (py_strip ''End If'') ''End If''
   \<and> open_ifs 0 [''If a Then'', ''End If''] = 0
   \<and> strip_useless_code (''If a Then'' @ [CHR 0x0A] @ ''End If'' @ [CHR 0x0A] @ ''End If'')
       = ''If a Then'' @ [CHR 0x0A] @ ''End If'' @ [CHR 0x0A] @ ''End Function''
         @ [CHR 0x0A, CHR 0x0A]
   \<and> py_lines (''If a Then'' @ [CHR 0x0A] @ ''MsgBox 1'' @ [CHR 0x0A] @ ''End If'')
       = [''If a Then'', ''MsgBox 1''] @ ''End If'' # []
   \<and> if_then_space [''If a Then'', ''MsgBox 1'']
   \<and> 0 < open_ifs 0 [''If a Then'', ''MsgBox 1'']
   \<and> \<not> py_in ''='' ''End If'' \<and> \<not> endswith ''End If'' ''End Function''
   \<and> CHR ''#'' \<notin> set (''If a Then'' @ [CHR 0x0A] @ ''MsgBox 1'' @ [CHR 0x0A] @ ''End If'')
   \<and> py_lines (strip_useless_code
        (''If a Then'' @ [CHR 0x0A] @ ''MsgBox 1'' @ [CHR 0x0A] @ ''End If''))
       = [''If a Then'', ''MsgBox 1'', ''End If'', [], []]"
proof -
  let ?t = "''If a Then'' @ [CHR 0x0A] @ ''End If'' @ [CHR 0x0A] @ ''End If''"
  let ?pre = "[''If a Then'', ''End If'']"
  let ?u = "''If a Then'' @ [CHR 0x0A] @ ''MsgBox 1'' @ [CHR 0x0A] @ ''End If''"
  let ?pre' = "[''If a Then'', ''MsgBox 1'']"
  have h1: "py_lines ?t = ?pre @ ''End If'' # []" by code_simp
  have h2: "if_then_space ?pre" by code_simp
  have h3: "startswith (py_strip ''End If'') ''End If''" by code_simp
  have h4: "open_ifs 0 ?pre = 0" by code_simp
  have v: "collapse_macro_if_blocks (py_unlines
            (rewrite_loop (comment_lines (py_lines ?t)) 0 0 ?pre
             @ ''End Function''
             # rewrite_loop (comment_lines (py_lines ?t)) (length ?pre + 1) 0 []))
        = ''If a Then'' @ [CHR 0x0A] @ ''End If'' @ [CHR 0x0A] @ ''End Function''
          @ [CHR 0x0A, CHR 0x0A]"
    by code_simp
  have "strip_useless_code ?t =
          collapse_macro_if_blocks (py_unlines
            (rewrite_loop (comment_lines (py_lines ?t)) 0 0 ?pre
             @ ''End Function''
             # rewrite_loop (comment_lines (py_lines ?t)) (length ?pre + 1) 0 []))"
    using unmatched_end_if_rewritten [where vba_code="?t" and pre="?pre" and line="''End If''"
        and post="[]", THEN conjunct1] h1 h2 h3 h4
    by blast
  then have c1: "strip_useless_code ?t
       = ''If a Then'' @ [CHR 0x0A] @ ''End If'' @ [CHR 0x0A] @ ''End Function''
         @ [CHR 0x0A, CHR 0x0A]"
    unfolding v .
  have g1: "py_lines ?u = ?pre' @ ''End If'' # []" by code_simp
  have g2: "if_then_space ?pre'" by code_simp
  have g4: "0 < open_ifs 0 ?pre'" by code_simp
  have g5: "\<not> py_in ''='' ''End If'' \<and> \<not> endswith ''End If'' ''End Function''" by code_simp
  have g6: "CHR ''#'' \<notin> set ?u" by code_simp
  have w: "rewrite_loop (comment_lines (py_lines ?u)) 0 0 ?pre'
             @ ''End If''
             # rewrite_loop (comment_lines (py_lines ?u)) (length ?pre' + 1)
                 (int (open_ifs 0 ?pre') - 1) []
             @ [[], []]
        = [''If a Then'', ''MsgBox 1'', ''End If'', [], []]"
    by code_simp
  have "py_lines (strip_useless_code ?u) =
          rewrite_loop (comment_lines (py_lines ?u)) 0 0 ?pre'
             @ ''End If''
             # rewrite_loop (comment_lines (py_lines ?u)) (length ?pre' + 1)
                 (int (open_ifs 0 ?pre') - 1) []
             @ [[], []]"
    using unmatched_end_if_rewritten [where vba_code="?u" and pre="?pre'" and line="''End If''"
        and post="[]", THEN conjunct2, THEN conjunct1] g1 g2 h3 g4 g5 g6
    by blast
  then have c2: "py_lines (strip_useless_code ?u)
       = [''If a Then'', ''MsgBox 1'', ''End If'', [], []]"
    unfolding w .
  show ?thesis using h1 h2 h3 h4 c1 g1 g2 g4 g5 g6 c2 by (intro conjI) (simp_all only: simp_thms)
qed

text \<open>
  C7 as stated fails: in the text below the third line is an \<^verbatim>\<open>End If\<close> met when two
  closings stand against one opening, and it is kept as it is.  The first line, an
  \<^verbatim>\<open>End If\<close> with nothing open, has been rewritten and no longer counts: the \<^verbatim>\<open>If\<close> of
  the second line is open when the third line is read.
\<close>

theorem end_if_after_rewritten_end_if_kept:
  "end_if_closings [''End If'', ''If a Then'', ''End If''] = 2
   \<and> if_openings [''End If'', ''If a Then'', ''End If''] = 1
   \<and> strip_useless_code (''End If'' @ [CHR 0x0A] @ ''If a Then'' @ [CHR 0x0A] @ ''End If'')
       = ''End Function'' @ [CHR 0x0A] @ ''If a Then'' @ [CHR 0x0A] @ ''End If''
         @ [CHR 0x0A, CHR 0x0A]"
  by code_simp


section \<open>Calls that do nothing and \<^verbatim>\<open>Dim\<close> statements\<close>

lemma py_strip_hd: "py_strip s = [] \<or> (\<exists>x ys. py_strip s = x # ys \<and> \<not> is_space x)"
proof (cases "dropWhile is_space s")
  case Nil
  then have "py_strip s = []" unfolding py_strip_def by (simp only: rev.simps dropWhile.simps)
  then show ?thesis by simp
next
  case (Cons x d)
  then have nx: "\<not> is_space x" by (metis hd_dropWhile list.sel(1) list.distinct(1))
  obtain ys where ys: "dropWhile is_space (rev d @ [x]) = ys @ [x]"
    using dropWhile_snoc_keep [of is_space x "rev d"] nx by blast
  have "py_strip s = x # rev ys" using Cons ys by (simp add: py_strip_def)
  then show ?thesis using nx by blast
qed

lemma useless_funcs_hd: "f \<in> set useless_funcs \<Longrightarrow> hd f \<in> set ''CLEST''"
  by (auto simp: useless_funcs_def)

text \<open>A useless call starts, after its white space, with the first letter of one of the
  five names.\<close>

lemma useless_call_hd:
  assumes u: "is_useless_call s" and p: "startswith (py_strip s) (c # q)"
  shows "c \<in> set ''CLEST''"
proof -
  let ?F = "filter (\<lambda>c. c \<noteq> CHR '' '') s"
  let ?k = "py_index (CHR ''('') ?F"
  have mem: "take ?k ?F \<in> set useless_funcs"
    using u by (simp add: is_useless_call_def Let_def py_replace_space split: if_splits)
  then have sh: "length (take ?k ?F) = 3 \<and> \<not> is_space (hd (take ?k ?F))"
    using useless_funcs_shape by blast
  have hdm: "hd (take ?k ?F) \<in> set ''CLEST''" using mem by (rule useless_funcs_hd)
  have ne: "take ?k ?F \<noteq> []" using sh by auto
  then have hdF: "hd (take ?k ?F) = hd ?F" by (cases ?F) (auto simp: take_Cons')
  have "py_strip s \<noteq> [] \<and> hd (py_strip s) = c" using p by (rule startswith_hd)
  then have nc: "\<not> is_space c" using py_strip_hd [of s] by auto
  then have c: "c \<noteq> CHR '' ''" by (auto simp: is_space_def)
  obtain ws t where d: "s = ws @ (c # q) @ t" "\<forall>c \<in> set ws. is_space c"
    using strip_prefix_decomp [OF p] by blast
  let ?fw = "filter (\<lambda>c. c \<noteq> CHR '' '') ws"
  have F: "?F = ?fw @ c # filter (\<lambda>c. c \<noteq> CHR '' '') (q @ t)" using d(1) c by simp
  show ?thesis
  proof (cases "?fw = []")
    case True
    then have "hd ?F = c" using F by simp
    then show ?thesis using hdm hdF by simp
  next
    case False
    then have "hd ?F = hd ?fw" using F by simp
    moreover have "hd ?fw \<in> set ?fw" using False by (rule hd_in_set)
    ultimately have "is_space (hd ?F)" using d(2) by simp
    then show ?thesis using sh hdF by simp
  qed
qed

lemma useless_call_step:
  assumes "is_useless_call line"
  shows "rewrite_step cl n ic line = ([], ic)"
proof -
  have 1: "\<not> startswith (py_strip line) ''End If''"
    using assms end_if_not_useless_call by blast
  have 2: "\<not> startswith (py_strip line) ''If ''"
  proof
    assume "startswith (py_strip line) ''If ''"
    then have "CHR ''I'' \<in> set ''CLEST''" using assms useless_call_hd by blast
    then show False by simp
  qed
  show ?thesis using assms 1 2 by (simp add: rewrite_step_def Let_def)
qed

text \<open>A line made of spaces, one of the five names, spaces and a parenthesis with what
  follows it, and without \<^verbatim>\<open>=\<close>, is a useless call.\<close>

lemma standalone_call_useless:
  assumes l: "line = replicate a (CHR '' '') @ f @ replicate b (CHR '' '') @ CHR ''('' # args"
      and f: "f \<in> {''Cos'', ''Log'', ''Exp'', ''Sin'', ''Tan''}"
      and e: "\<not> py_in ''='' line"
  shows "is_useless_call line"
proof -
  have p: "py_in ''('' line" using l by (simp add: py_in_char)
  have ff: "filter (\<lambda>c. c \<noteq> CHR '' '') f = f" using f by auto
  have F: "filter (\<lambda>c. c \<noteq> CHR '' '') line = f @ CHR ''('' # filter (\<lambda>c. c \<noteq> CHR '' '') args"
    using l ff by simp
  have np: "\<forall>c \<in> set f. c \<noteq> CHR ''(''" using f by auto
  then have t: "takeWhile (\<lambda>x. x \<noteq> CHR ''('') (f @ CHR ''('' # r) = f" for r
    by (simp add: takeWhile_tail)
  have "take (py_index (CHR ''('') (filter (\<lambda>c. c \<noteq> CHR '' '') line))
          (filter (\<lambda>c. c \<noteq> CHR '' '') line) = f"
    unfolding F py_index_def t by simp
  moreover have "f \<in> set useless_funcs" using f by (auto simp: useless_funcs_def)
  ultimately show ?thesis using e p
    by (simp add: is_useless_call_def Let_def py_replace_space)
qed

lemma dim_not_if: "startswith s ''Dim '' \<Longrightarrow> \<not> startswith s ''If ''"
proof
  assume a: "startswith s ''Dim ''" and b: "startswith s ''If ''"
  have "hd s = CHR ''D''" using startswith_hd [OF a] by simp
  moreover have "hd s = CHR ''I''" using startswith_hd [OF b] by simp
  ultimately show False by simp
qed

lemma useless_dim_step:
  assumes "is_useless_dim line"
  shows "rewrite_step cl n ic line = ([], ic)"
proof -
  have d: "startswith (py_strip line) ''Dim ''" using assms by (simp add: is_useless_dim_iff)
  have 1: "\<not> startswith (py_strip line) ''End If''" using d by (rule dim_not_end_if)
  have 2: "\<not> startswith (py_strip line) ''If ''" using d by (rule dim_not_if)
  show ?thesis using assms 1 2 by (simp add: rewrite_step_def Let_def)
qed

lemma py_in_suffix: "py_in (a @ b) s \<Longrightarrow> py_in b s"
proof (induction s)
  case Nil
  then show ?case by simp
next
  case (Cons c s)
  show ?case
  proof (cases "startswith (c # s) (a @ b)")
    case True
    then obtain t where "c # s = (a @ b) @ t" using startswith_append by blast
    then have "c # s = a @ b @ t" by simp
    then show ?thesis using py_in_append [of b a t] by simp
  next
    case False
    then have "py_in (a @ b) s" using Cons.prems by simp
    then have "py_in b s" by (rule Cons.IH)
    then show ?thesis by simp
  qed
qed

lemma typed_dim_step:
  assumes i: "i < length ls"
      and d: "startswith (py_strip (ls ! i)) ''Dim ''"
      and t: "py_in ''As Byte'' (py_strip (ls ! i)) \<or> py_in ''As Integer'' (py_strip (ls ! i))
              \<or> py_in ''As Long'' (py_strip (ls ! i))"
      and e: "\<not> py_in ''='' (ls ! i)"
  shows "rewrite_step (comment_lines ls) (Suc i) ic (ls ! i) =
           (if endswith (ls ! i) ''End Function'' \<and> length (ls ! i) > length ''End Function''
            then [py_replace ''End Function'' [] (ls ! i), ''End Function'']
            else [ls ! i],
            ic)"
proof -
  let ?l = "ls ! i"
  have 0: "\<not> startswith (py_strip ?l) ''If ''" using d by (rule dim_not_if)
  have 1: "\<not> startswith (py_strip ?l) ''End If''" using d by (rule dim_not_end_if)
  have 2: "Suc i \<notin> comment_lines ls" using i e by (rule no_eq_not_commented)
  have 3: "\<not> is_useless_call ?l" using d by (rule dim_not_useless_call)
  have "py_in ''Byte'' (py_strip ?l) \<or> py_in ''Integer'' (py_strip ?l)
        \<or> py_in ''Long'' (py_strip ?l)"
    using t py_in_suffix [of "''As ''" "''Byte''" "py_strip ?l"]
      py_in_suffix [of "''As ''" "''Integer''" "py_strip ?l"]
      py_in_suffix [of "''As ''" "''Long''" "py_strip ?l"]
    by auto
  then have 4: "\<not> is_useless_dim ?l" by (auto simp: is_useless_dim_iff)
  have "\<not> startswith (py_strip ?l) ''Application.Run''" using d by (rule dim_not_app_run)
  then have 5: "fix_application_run ?l = ?l" by (simp add: fix_application_run_def)
  show ?thesis using 0 1 2 3 4 5 by (simp add: rewrite_step_def Let_def)
qed

text \<open>
  C9, amended.  \<^verbatim>\<open>strip_useless_code\<close> removes every line without \<^verbatim>\<open>=\<close> that is made of
  spaces, one of the names Cos, Log, Exp, Sin, Tan, spaces, and an opening parenthesis with
  what follows it; and every line whose stripped text starts with \<^verbatim>\<open>Dim\<close> and a space,
  holds none of the texts Byte, Long, Integer, no \<^verbatim>\<open>:\<close> and no \<^verbatim>\<open>=\<close>, and does not end
  with \<^verbatim>\<open>_\<close>.  A \<^verbatim>\<open>Dim\<close> line that names a type as \<^verbatim>\<open>As Byte\<close>, \<^verbatim>\<open>As Integer\<close> or
  \<^verbatim>\<open>As Long\<close> and holds no \<^verbatim>\<open>=\<close> is kept by the third loop (split in two when it ends
  with \<^verbatim>\<open>End Function\<close>); it is in the output when the text holds no \<^verbatim>\<open>#\<close>, so that no
  \<^verbatim>\<open>#If\<close> block can take it away.  Nothing is said of calls after a tab or after
  \<^verbatim>\<open>Call\<close>, of \<^verbatim>\<open>Dim\<close> lines that hold one of the three words elsewhere than in the
  type, or of \<^verbatim>\<open>Dim\<close> lines with an \<^verbatim>\<open>=\<close>: see the counterexample below.
\<close>

theorem useless_calls_and_dims_stripped:
  "(py_lines vba_code = pre @ line # post
      \<and> line = replicate a (CHR '' '') @ f @ replicate b (CHR '' '') @ CHR ''('' # args
      \<and> f \<in> {''Cos'', ''Log'', ''Exp'', ''Sin'', ''Tan''}
      \<and> \<not> py_in ''='' line
    \<longrightarrow> strip_useless_code vba_code =
          collapse_macro_if_blocks (py_unlines
            (rewrite_loop (comment_lines (py_lines vba_code)) 0 0 pre
             @ rewrite_loop (comment_lines (py_lines vba_code)) (length pre + 1)
                 (if_count_after 0 pre) post))
        \<and> (CHR ''#'' \<notin> set vba_code \<longrightarrow>
             py_lines (strip_useless_code vba_code) =
               rewrite_loop (comment_lines (py_lines vba_code)) 0 0 pre
               @ rewrite_loop (comment_lines (py_lines vba_code)) (length pre + 1)
                   (if_count_after 0 pre) post
               @ [[], []]))
   \<and> (py_lines vba_code = pre @ line # post
      \<and> startswith (py_strip line) ''Dim ''
      \<and> \<not> py_in ''Byte'' (py_strip line) \<and> \<not> py_in ''Long'' (py_strip line)
      \<and> \<not> py_in ''Integer'' (py_strip line)
      \<and> \<not> py_in '':'' (py_strip line) \<and> \<not> py_in ''='' (py_strip line)
      \<and> \<not> endswith (py_strip line) ''_''
    \<longrightarrow> strip_useless_code vba_code =
          collapse_macro_if_blocks (py_unlines
            (rewrite_loop (comment_lines (py_lines vba_code)) 0 0 pre
             @ rewrite_loop (comment_lines (py_lines vba_code)) (length pre + 1)
                 (if_count_after 0 pre) post))
        \<and> (CHR ''#'' \<notin> set vba_code \<longrightarrow>
             py_lines (strip_useless_code vba_code) =
               rewrite_loop (comment_lines (py_lines vba_code)) 0 0 pre
               @ rewrite_loop (comment_lines (py_lines vba_code)) (length pre + 1)
                   (if_count_after 0 pre) post
               @ [[], []]))
   \<and> (py_lines vba_code = pre @ line # post
      \<and> startswith (py_strip line) ''Dim ''
      \<and> (py_in ''As Byte'' (py_strip line) \<or> py_in ''As Integer'' (py_strip line)
           \<or> py_in ''As Long'' (py_strip line))
      \<and> \<not> py_in ''='' line
    \<longrightarrow> strip_useless_code vba_code =
          collapse_macro_if_blocks (py_unlines
            (rewrite_loop (comment_lines (py_lines vba_code)) 0 0 pre
             @ (if endswith line ''End Function'' \<and> length line > length ''End Function''
                then [py_replace ''End Function'' [] line, ''End Function'']
                else [line])
             @ rewrite_loop (comment_lines (py_lines vba_code)) (length pre + 1)
                 (if_count_after 0 pre) post))
        \<and> (CHR ''#'' \<notin> set vba_code \<longrightarrow>
             py_lines (strip_useless_code vba_code) =
               rewrite_loop (comment_lines (py_lines vba_code)) 0 0 pre
               @ (if endswith line ''End Function'' \<and> length line > length ''End Function''
                  then [py_replace ''End Function'' [] line, ''End Function'']
                  else [line])
               @ rewrite_loop (comment_lines (py_lines vba_code)) (length pre + 1)
                   (if_count_after 0 pre) post
               @ [[], []]))"
proof (intro conjI impI)
  assume a: "py_lines vba_code = pre @ line # post
      \<and> line = replicate a (CHR '' '') @ f @ replicate b (CHR '' '') @ CHR ''('' # args
      \<and> f \<in> {''Cos'', ''Log'', ''Exp'', ''Sin'', ''Tan''}
      \<and> \<not> py_in ''='' line"
  let ?cl = "comment_lines (py_lines vba_code)"
  have "is_useless_call line" using a standalone_call_useless by blast
  then have st: "rewrite_step ?cl (length pre + 1) (if_count_after 0 pre) line
      = ([], if_count_after 0 pre)"
    by (rule useless_call_step)
  show "strip_useless_code vba_code =
          collapse_macro_if_blocks (py_unlines
            (rewrite_loop ?cl 0 0 pre
             @ rewrite_loop ?cl (length pre + 1) (if_count_after 0 pre) post))"
    using strip_at_line [OF _ st] a by simp
  assume "CHR ''#'' \<notin> set vba_code"
  then show "py_lines (strip_useless_code vba_code) =
               rewrite_loop ?cl 0 0 pre
               @ rewrite_loop ?cl (length pre + 1) (if_count_after 0 pre) post @ [[], []]"
    using strip_no_hash_at_line [OF _ _ st] a by simp
next
  assume a: "py_lines vba_code = pre @ line # post
      \<and> startswith (py_strip line) ''Dim ''
      \<and> \<not> py_in ''Byte'' (py_strip line) \<and> \<not> py_in ''Long'' (py_strip line)
      \<and> \<not> py_in ''Integer'' (py_strip line)
      \<and> \<not> py_in '':'' (py_strip line) \<and> \<not> py_in ''='' (py_strip line)
      \<and> \<not> endswith (py_strip line) ''_''"
  let ?cl = "comment_lines (py_lines vba_code)"
  have "is_useless_dim line" using a by (simp add: is_useless_dim_iff)
  then have st: "rewrite_step ?cl (length pre + 1) (if_count_after 0 pre) line
      = ([], if_count_after 0 pre)"
    by (rule useless_dim_step)
  show "strip_useless_code vba_code =
          collapse_macro_if_blocks (py_unlines
            (rewrite_loop ?cl 0 0 pre
             @ rewrite_loop ?cl (length pre + 1) (if_count_after 0 pre) post))"
    using strip_at_line [OF _ st] a by simp
  assume "CHR ''#'' \<notin> set vba_code"
  then show "py_lines (strip_useless_code vba_code) =
               rewrite_loop ?cl 0 0 pre
               @ rewrite_loop ?cl (length pre + 1) (if_count_after 0 pre) post @ [[], []]"
    using strip_no_hash_at_line [OF _ _ st] a by simp
next
  assume a: "py_lines vba_code = pre @ line # post
      \<and> startswith (py_strip line) ''Dim ''
      \<and> (py_in ''As Byte'' (py_strip line) \<or> py_in ''As Integer'' (py_strip line)
           \<or> py_in ''As Long'' (py_strip line))
      \<and> \<not> py_in ''='' line"
  let ?ls = "py_lines vba_code"
  let ?cl = "comment_lines ?ls"
  let ?kept = "if endswith line ''End Function'' \<and> length line > length ''End Function''
                then [py_replace ''End Function'' [] line, ''End Function'']
                else [line]"
  have nth: "?ls ! length pre = line" using a by simp
  have len: "length pre < length ?ls" using a by simp
  have "rewrite_step ?cl (Suc (length pre)) (if_count_after 0 pre) (?ls ! length pre) =
           (if endswith (?ls ! length pre) ''End Function''
                \<and> length (?ls ! length pre) > length ''End Function''
            then [py_replace ''End Function'' [] (?ls ! length pre), ''End Function'']
            else [?ls ! length pre],
            if_count_after 0 pre)"
    using a len unfolding nth [symmetric] by (intro typed_dim_step) simp_all
  then have st: "rewrite_step ?cl (length pre + 1) (if_count_after 0 pre) line
      = (?kept, if_count_after 0 pre)"
    unfolding nth by simp
  show "strip_useless_code vba_code =
          collapse_macro_if_blocks (py_unlines
            (rewrite_loop ?cl 0 0 pre @ ?kept
             @ rewrite_loop ?cl (length pre + 1) (if_count_after 0 pre) post))"
    using strip_at_line [OF _ st] a by blast
  assume "CHR ''#'' \<notin> set vba_code"
  then show "py_lines (strip_useless_code vba_code) =
               rewrite_loop ?cl 0 0 pre @ ?kept
               @ rewrite_loop ?cl (length pre + 1) (if_count_after 0 pre) post @ [[], []]"
    using strip_no_hash_at_line [OF _ _ st] a by blast
qed

theorem useless_calls_and_dims_stripped_witness:
  "strip_useless_code (''Cos(1)'' @ [CHR 0x0A] @ ''MsgBox 1'') = ''MsgBox 1'' @ [CHR 0x0A, CHR 0x0A]
   \<and> strip_useless_code (''Log(1)'' @ [CHR 0x0A] @ ''MsgBox 1'') = ''MsgBox 1'' @ [CHR 0x0A, CHR 0x0A]
   \<and> strip_useless_code (''Exp(1)'' @ [CHR 0x0A] @ ''MsgBox 1'') = ''MsgBox 1'' @ [CHR 0x0A, CHR 0x0A]
   \<and> strip_useless_code (''Sin(1)'' @ [CHR 0x0A] @ ''MsgBox 1'') = ''MsgBox 1'' @ [CHR 0x0A, CHR 0x0A]
   \<and> strip_useless_code (''MsgBox 1'' @ [CHR 0x0A] @ ''  Tan (x + 1)'')
       = ''MsgBox 1'' @ [CHR 0x0A, CHR 0x0A]
   \<and> startswith (py_strip ''Dim x'') ''Dim ''
   \<and> strip_useless_code (''Dim x'' @ [CHR 0x0A] @ ''MsgBox 1'') = ''MsgBox 1'' @ [CHR 0x0A, CHR 0x0A]
   \<and> startswith (py_strip '' Dim x As Long'') ''Dim ''
   \<and> py_in ''As Long'' (py_strip '' Dim x As Long'')
   \<and> CHR ''#'' \<notin> set ('' Dim x As Long'' @ [CHR 0x0A] @ ''MsgBox 1'')
   \<and> py_lines (strip_useless_code ('' Dim x As Long'' @ [CHR 0x0A] @ ''MsgBox 1''))
       = ['' Dim x As Long'', ''MsgBox 1'', [], []]"
proof -
  let ?m = "''MsgBox 1''"
  let ?out = "''MsgBox 1'' @ [CHR 0x0A, CHR 0x0A]"
  have call: "strip_useless_code (f @ ''(1)'' @ [CHR 0x0A] @ ?m) = ?out"
    if f: "f \<in> {''Cos'', ''Log'', ''Exp'', ''Sin'', ''Tan''}" for f
  proof -
    let ?t = "f @ ''(1)'' @ [CHR 0x0A] @ ?m"
    have nf: "CHR 0x0A \<notin> set (f @ ''(1)'')" using f by auto
    have "py_lines ?t = (f @ ''(1)'') # py_lines ?m"
      using py_split_line [OF nf, of ?m] by (simp add: py_lines_def)
    moreover have "py_lines ?m = [?m]" by code_simp
    ultimately have h1: "py_lines ?t = [] @ (f @ ''(1)'') # [?m]" by simp
    have h2: "f @ ''(1)'' = replicate 0 (CHR '' '') @ f @ replicate 0 (CHR '' '') @ CHR ''('' # ''1)''"
      by simp
    have h3: "\<not> py_in ''='' (f @ ''(1)'')" using f by (auto simp: py_in_char)
    have s: "strip_useless_code ?t =
          collapse_macro_if_blocks (py_unlines
            (rewrite_loop (comment_lines (py_lines ?t)) 0 0 []
             @ rewrite_loop (comment_lines (py_lines ?t)) (length ([] :: string list) + 1)
                 (if_count_after 0 []) [?m]))"
      using useless_calls_and_dims_stripped [where vba_code="?t" and pre="[]"
          and line="f @ ''(1)''" and post="[?m]" and a=0 and b=0 and f=f and args="''1)''",
          THEN conjunct1] h1 h2 h3 f
      by blast
    have "\<not> py_in ''='' l" if "l \<in> set (py_lines ?t)" for l
      using that h1 h3 by (auto simp: py_in_char)
    then have "comment_lines (py_lines ?t) = {}" by (intro plain_not_commented) blast
    moreover have "collapse_macro_if_blocks (py_unlines
            (rewrite_loop {} 0 0 []
             @ rewrite_loop {} (length ([] :: string list) + 1) (if_count_after 0 []) [?m]))
          = ?out"
      by code_simp
    ultimately show ?thesis using s by simp
  qed
  have c1: "strip_useless_code (''Cos(1)'' @ [CHR 0x0A] @ ?m) = ?out"
    using call [of "''Cos''"] by simp
  have c2: "strip_useless_code (''Log(1)'' @ [CHR 0x0A] @ ?m) = ?out"
    using call [of "''Log''"] by simp
  have c3: "strip_useless_code (''Exp(1)'' @ [CHR 0x0A] @ ?m) = ?out"
    using call [of "''Exp''"] by simp
  have c4: "strip_useless_code (''Sin(1)'' @ [CHR 0x0A] @ ?m) = ?out"
    using call [of "''Sin''"] by simp

  let ?t5 = "''MsgBox 1'' @ [CHR 0x0A] @ ''  Tan (x + 1)''"
  have t1: "py_lines ?t5 = [?m] @ ''  Tan (x + 1)'' # []" by code_simp
  have t2: "''  Tan (x + 1)''
      = replicate 2 (CHR '' '') @ ''Tan'' @ replicate 1 (CHR '' '') @ CHR ''('' # ''x + 1)''"
    by code_simp
  have t3: "''Tan'' \<in> {''Cos'', ''Log'', ''Exp'', ''Sin'', ''Tan''}" by simp
  have t4: "\<not> py_in ''='' ''  Tan (x + 1)''" by code_simp
  have t5: "collapse_macro_if_blocks (py_unlines
            (rewrite_loop (comment_lines (py_lines ?t5)) 0 0 [?m]
             @ rewrite_loop (comment_lines (py_lines ?t5)) (length [?m] + 1)
                 (if_count_after 0 [?m]) []))
          = ?out"
    by code_simp
  have "strip_useless_code ?t5 =
          collapse_macro_if_blocks (py_unlines
            (rewrite_loop (comment_lines (py_lines ?t5)) 0 0 [?m]
             @ rewrite_loop (comment_lines (py_lines ?t5)) (length [?m] + 1)
                 (if_count_after 0 [?m]) []))"
    using useless_calls_and_dims_stripped [where vba_code="?t5" and pre="[?m]"
        and line="''  Tan (x + 1)''" and post="[]" and a=2 and b=1 and f="''Tan''"
        and args="''x + 1)''", THEN conjunct1] t1 t2 t3 t4
    by blast
  then have c5: "strip_useless_code ?t5 = ?out" unfolding t5 .

  let ?t6 = "''Dim x'' @ [CHR 0x0A] @ ''MsgBox 1''"
  have d1: "py_lines ?t6 = [] @ ''Dim x'' # [?m]" by code_simp
  have d2: "startswith (py_strip ''Dim x'') ''Dim ''" by code_simp
  have d3: "\<not> py_in ''Byte'' (py_strip ''Dim x'') \<and> \<not> py_in ''Long'' (py_strip ''Dim x'')
      \<and> \<not> py_in ''Integer'' (py_strip ''Dim x'')
      \<and> \<not> py_in '':'' (py_strip ''Dim x'') \<and> \<not> py_in ''='' (py_strip ''Dim x'')
      \<and> \<not> endswith (py_strip ''Dim x'') ''_''"
    by code_simp
  have d4: "collapse_macro_if_blocks (py_unlines
            (rewrite_loop (comment_lines (py_lines ?t6)) 0 0 []
             @ rewrite_loop (comment_lines (py_lines ?t6)) (length ([] :: string list) + 1)
                 (if_count_after 0 []) [?m]))
          = ?out"
    by code_simp
  have "strip_useless_code ?t6 =
          collapse_macro_if_blocks (py_unlines
            (rewrite_loop (comment_lines (py_lines ?t6)) 0 0 []
             @ rewrite_loop (comment_lines (py_lines ?t6)) (length ([] :: string list) + 1)
                 (if_count_after 0 []) [?m]))"
    using useless_calls_and_dims_stripped [where vba_code="?t6" and pre="[]"
        and line="''Dim x''" and post="[?m]", THEN conjunct2, THEN conjunct1] d1 d2 d3
    by blast
  then have c6: "strip_useless_code ?t6 = ?out" unfolding d4 .

  let ?l7 = "'' Dim x As Long''"
  let ?t7 = "?l7 @ [CHR 0x0A] @ ''MsgBox 1''"
  have e1: "py_lines ?t7 = [] @ ?l7 # [?m]" by code_simp
  have e2: "startswith (py_strip ?l7) ''Dim ''" by code_simp
  have e3: "py_in ''As Long'' (py_strip ?l7)" by code_simp
  have e4: "\<not> py_in ''='' ?l7" by code_simp
  have e5: "CHR ''#'' \<notin> set ?t7" by code_simp
  have e6: "rewrite_loop (comment_lines (py_lines ?t7)) 0 0 []
               @ (if endswith ?l7 ''End Function'' \<and> length ?l7 > length ''End Function''
                  then [py_replace ''End Function'' [] ?l7, ''End Function'']
                  else [?l7])
               @ rewrite_loop (comment_lines (py_lines ?t7)) (length ([] :: string list) + 1)
                   (if_count_after 0 []) [?m]
               @ [[], []]
          = [?l7, ?m, [], []]"
    by code_simp
  have "py_lines (strip_useless_code ?t7) =
          rewrite_loop (comment_lines (py_lines ?t7)) 0 0 []
               @ (if endswith ?l7 ''End Function'' \<and> length ?l7 > length ''End Function''
                  then [py_replace ''End Function'' [] ?l7, ''End Function'']
                  else [?l7])
               @ rewrite_loop (comment_lines (py_lines ?t7)) (length ([] :: string list) + 1)
                   (if_count_after 0 []) [?m]
               @ [[], []]"
    using useless_calls_and_dims_stripped [where vba_code="?t7" and pre="[]"
        and line="?l7" and post="[?m]", THEN conjunct2, THEN conjunct2] e1 e2 e3 e4 e5
    by blast
  then have c7: "py_lines (strip_useless_code ?t7) = [?l7, ?m, [], []]" unfolding e6 .
  show ?thesis using c1 c2 c3 c4 c5 d2 c6 e2 e3 e5 c7 by (intro conjI) (simp_all only: simp_thms)
qed

text \<open>
  C9 as stated fails.  The line \<^verbatim>\<open>Dim x As Long: x = 5\<close> names \<^verbatim>\<open>Long\<close> and is removed (it
  holds an assignment to a variable that no other line reads); a \<^verbatim>\<open>Dim\<close> line naming
  \<^verbatim>\<open>Long\<close> inside the arm of an \<^verbatim>\<open>#If\<close> block that is not chosen is removed with the arm.
  The calls \<^verbatim>\<open>Cos(1)\<close> after a tab and \<^verbatim>\<open>Call Cos(1)\<close> are kept, and so is
  \<^verbatim>\<open>Dim myLongName As String\<close>, which names none of the three types.
\<close>

theorem dim_long_with_assignment_stripped:
  "startswith (py_strip ''Dim x As Long: x = 5'') ''Dim ''
   \<and> py_in ''Long'' (py_strip ''Dim x As Long: x = 5'')
   \<and> strip_useless_code ''Dim x As Long: x = 5'' = [CHR 0x0A]
   \<and> strip_useless_code
        (''#If A'' @ [CHR 0x0A] @ ''Dim x As Long'' @ [CHR 0x0A] @ ''#Else'' @ [CHR 0x0A]
         @ ''y'' @ [CHR 0x0A] @ ''z'' @ [CHR 0x0A] @ ''#End If'')
       = ''y'' @ [CHR 0x0A] @ ''z'' @ [CHR 0x0A, CHR 0x0A]
   \<and> strip_useless_code ([CHR 0x09] @ ''Cos(1)'') = [CHR 0x09] @ ''Cos(1)'' @ [CHR 0x0A, CHR 0x0A]
   \<and> strip_useless_code ''Call Cos(1)'' = ''Call Cos(1)'' @ [CHR 0x0A, CHR 0x0A]
   \<and> strip_useless_code ''Dim myLongName As String''
       = ''Dim myLongName As String'' @ [CHR 0x0A, CHR 0x0A]"
  by code_simp

end
